theory Spec2Isabelle
  imports Main "HOL-Library.Word"
begin

unbundle bit_operations_syntax

section \<open>Platform strings\<close>

text \<open>
  The formatter works on JavaScript strings, which are sequences of UTF-16 code units.
  A \<^typ>\<open>string\<close> stands for a JavaScript string whose code units all lie in
  U+0000..U+00FF: each \<^typ>\<open>char\<close> is one code unit, so \<^const>\<open>length\<close> is the
  \<^verbatim>\<open>.length\<close> of the source. The built-ins below are the ECMAScript ones cut down
  to that range.
\<close>

text \<open>
  WhiteSpace and LineTerminator of ECMAScript, which \<^verbatim>\<open>String.prototype.trim\<close> strips
  and the class \<^verbatim>\<open>\s\<close> matches: TAB, LF, VT, FF, CR, SP and NBSP are the ones
  below U+0100.
\<close>

definition isWhiteSpace :: "char \<Rightarrow> bool" where
  "isWhiteSpace c \<longleftrightarrow> (of_char c :: nat) \<in> set [0x09, 0x0A, 0x0B, 0x0C, 0x0D, 0x20, 0xA0]"

text \<open>\<^verbatim>\<open>[0-9]\<close>; the class \<^verbatim>\<open>\D\<close> is its complement.\<close>

definition isDigit :: "char \<Rightarrow> bool" where
  "isDigit c \<longleftrightarrow> c \<in> set ''0123456789''"

text \<open>\<^verbatim>\<open>String.prototype.trim\<close>\<close>

definition trim :: "string \<Rightarrow> string" where
  "trim s = rev (dropWhile isWhiteSpace (rev (dropWhile isWhiteSpace s)))"

text \<open>
  \<^verbatim>\<open>String.prototype.toLowerCase\<close>: below U+0100 the letters with a lower-case mapping
  are A..Z, U+00C0..U+00D6 and U+00D8..U+00DE, each mapped 32 code units up.
\<close>

definition lowerChar :: "char \<Rightarrow> char" where
  "lowerChar c =
     (let n = (of_char c :: nat)
      in if (65 \<le> n \<and> n \<le> 90) \<or> (192 \<le> n \<and> n \<le> 214) \<or> (216 \<le> n \<and> n \<le> 222)
         then char_of (n + 32) else c)"

definition toLowerCase :: "string \<Rightarrow> string" where
  "toLowerCase s = map lowerChar s"

text \<open>
  \<^verbatim>\<open>String.prototype.toUpperCase\<close> can leave the range and can lengthen the string, so
  its result is a list of code units as numbers: a..z, U+00E0..U+00F6 and U+00F8..U+00FE
  go 32 code units down, U+00DF (sharp s) becomes the two letters SS, U+00B5 (micro sign)
  becomes U+039C and U+00FF becomes U+0178. Sharp s is the one code unit of the range
  that upper-casing lengthens; above U+00FF there are more of them (the ligatures
  U+FB00..U+FB06 among them), so nothing below is stated in terms of which single code
  units lengthen.
\<close>

definition upperUnits :: "char \<Rightarrow> nat list" where
  "upperUnits c =
     (let n = (of_char c :: nat)
      in if (97 \<le> n \<and> n \<le> 122) \<or> (224 \<le> n \<and> n \<le> 246) \<or> (248 \<le> n \<and> n \<le> 254)
         then [n - 32]
         else if n = 223 then [83, 83]
         else if n = 181 then [924]
         else if n = 255 then [376]
         else [n])"

definition toUpperCase :: "string \<Rightarrow> nat list" where
  "toUpperCase s = concat (map upperUnits s)"

text \<open>
  \<^verbatim>\<open>s.replace(/c/g, '')\<close> for a pattern that is a single character class
  (\<^verbatim>\<open>/\./g\<close>, \<^verbatim>\<open>/\D/g\<close>): every code unit of the class is dropped.
\<close>

definition stripClass :: "(char \<Rightarrow> bool) \<Rightarrow> string \<Rightarrow> string" where
  "stripClass cls s = filter (\<lambda>c. \<not> cls c) s"

section \<open>Arguments and errors\<close>

text \<open>
  The parameters are typed \<^verbatim>\<open>string\<close> and \<^verbatim>\<open>Buffer\<close>, and the functions guard
  against \<^verbatim>\<open>null\<close> and \<^verbatim>\<open>undefined\<close> passed all the same.
\<close>

datatype 'a arg = Null | Undefined | Val 'a

text \<open>
  Every failure of the source is \<^verbatim>\<open>throw new Error(message)\<close>; the specification
  calls this one kind of error InvalidInput. A call returns \<open>Inl\<close> of the error it
  throws or \<open>Inr\<close> of its result.
\<close>

datatype error = InvalidInput string

text \<open>
  A guard \<^verbatim>\<open>if (!s)\<close> on a string argument fires for \<^verbatim>\<open>null\<close>, \<^verbatim>\<open>undefined\<close> and
  the empty string; on a \<^verbatim>\<open>Buffer\<close> argument it fires for \<^verbatim>\<open>null\<close> and
  \<^verbatim>\<open>undefined\<close> only.
\<close>

section \<open>Phone numbers and postal codes\<close>

definition formatPhoneNumber :: "string arg \<Rightarrow> error + string" where
  "formatPhoneNumber phoneNumber =
     (case phoneNumber of
        Val p \<Rightarrow>
          if p = [] then Inl (InvalidInput ''Phone number is null or empty.'')
          else
            let trimmedPhone = trim p in
            if trimmedPhone = [] then Inl (InvalidInput ''Phone number is empty or blank.'')
            else
              let digitsOnly = stripClass (\<lambda>c. \<not> isDigit c) trimmedPhone in
              if digitsOnly = [] then Inl (InvalidInput ''Phone number contains no digits.'')
              else Inr (CHR ''+'' # digitsOnly)
      | _ \<Rightarrow> Inl (InvalidInput ''Phone number is null or empty.''))"

definition formatPostalCode :: "string arg \<Rightarrow> error + string" where
  "formatPostalCode postalCode =
     (case postalCode of
        Val p \<Rightarrow>
          if p = [] then Inl (InvalidInput ''Postal code is null or empty.'')
          else
            let trimmedPostalCode = trim p in
            if trimmedPostalCode = [] then Inl (InvalidInput ''Postal code is empty or blank.'')
            else Inr trimmedPostalCode
      | _ \<Rightarrow> Inl (InvalidInput ''Postal code is null or empty.''))"

section \<open>Patterns\<close>

text \<open>
  The regular expressions of the source use literals, the classes \<^verbatim>\<open>\s\<close> and
  \<^verbatim>\<open>[A-Z]\<close>, sequence, alternation, the greedy quantifiers \<^verbatim>\<open>?\<close> on a group and
  \<^verbatim>\<open>*\<close>, \<^verbatim>\<open>+\<close> on a class, and the anchors \<^verbatim>\<open>^\<close> and \<^verbatim>\<open>$\<close> (no flags, so the
  anchors are the two ends of the input).
\<close>

datatype 'a regex =
    Lit "'a list"
  | Cls "'a \<Rightarrow> bool"
  | Seq "'a regex" "'a regex"
  | Alt "'a regex" "'a regex"
  | Opt "'a regex"
  | Star "'a \<Rightarrow> bool"
  | Plus "'a \<Rightarrow> bool"
  | Bos
  | Eos

text \<open>
  \<open>ends r s i\<close> lists the positions where a match of \<open>r\<close> that starts at position
  \<open>i\<close> of the input \<open>s\<close> can end, in the order in which a backtracking matcher tries
  them: the left alternative first, an optional part taken before it is skipped, the
  longest repetition first.
\<close>

fun ends :: "'a regex \<Rightarrow> 'a list \<Rightarrow> nat \<Rightarrow> nat list" where
  "ends (Lit w) s i = (if take (length w) (drop i s) = w then [i + length w] else [])"
| "ends (Cls p) s i = (if i < length s \<and> p (s ! i) then [Suc i] else [])"
| "ends (Seq r1 r2) s i = concat (map (ends r2 s) (ends r1 s i))"
| "ends (Alt r1 r2) s i = ends r1 s i @ ends r2 s i"
| "ends (Opt r) s i = ends r s i @ [i]"
| "ends (Star p) s i = map (\<lambda>n. i + n) (rev [0..<Suc (length (takeWhile p (drop i s)))])"
| "ends (Plus p) s i = map (\<lambda>n. i + n) (rev [1..<Suc (length (takeWhile p (drop i s)))])"
| "ends Bos s i = (if i = 0 then [i] else [])"
| "ends Eos s i = (if i = length s then [i] else [])"

text \<open>
  \<^verbatim>\<open>RegExp.prototype.exec\<close>: the match at the leftmost start position that has one,
  with the end the matcher finds first. \<^verbatim>\<open>regex.test(s)\<close> says whether there is a match,
  and \<^verbatim>\<open>s.replace(regex, '')\<close> cuts the match out.
\<close>

definition exec :: "'a regex \<Rightarrow> 'a list \<Rightarrow> (nat \<times> nat) option" where
  "exec r s =
     (case find (\<lambda>i. ends r s i \<noteq> []) [0..<Suc (length s)] of
        None \<Rightarrow> None
      | Some i \<Rightarrow> Some (i, hd (ends r s i)))"

definition test :: "'a regex \<Rightarrow> 'a list \<Rightarrow> bool" where
  "test r s \<longleftrightarrow> exec r s \<noteq> None"

definition replaceFirst :: "'a regex \<Rightarrow> 'a list \<Rightarrow> 'a list" where
  "replaceFirst r s = (case exec r s of None \<Rightarrow> s | Some (i, e) \<Rightarrow> take i s @ drop e s)"

fun alts :: "'a regex list \<Rightarrow> 'a regex" where
  "alts [] = Cls (\<lambda>c. False)"
| "alts [r] = r"
| "alts (r # rs) = Alt r (alts rs)"

text \<open>\<^verbatim>\<open>/^(?:mr|mrs|ms|dr)\.(?:\s|$)/\<close>\<close>

definition prefixPattern :: "char regex" where
  "prefixPattern =
     Seq Bos (Seq (alts [Lit ''mr'', Lit ''mrs'', Lit ''ms'', Lit ''dr''])
       (Seq (Lit ''.'') (Alt (Cls isWhiteSpace) Eos)))"

text \<open>
  \<^verbatim>\<open>(?:,\s*|\s+)(?:jr\.?|sr\.?|2nd|3rd|ii|iii|iv|v|vi|cpa|dc|dds|vm|jd|md|phd)\s?$\<close>,
  which is what is left of the template of the source once its layout is stripped.
\<close>

definition suffixPattern :: "char regex" where
  "suffixPattern =
     Seq (Alt (Seq (Lit '','') (Star isWhiteSpace)) (Plus isWhiteSpace))
       (Seq (alts [Seq (Lit ''jr'') (Opt (Lit ''.'')), Seq (Lit ''sr'') (Opt (Lit ''.'')),
                   Lit ''2nd'', Lit ''3rd'', Lit ''ii'', Lit ''iii'', Lit ''iv'', Lit ''v'',
                   Lit ''vi'', Lit ''cpa'', Lit ''dc'', Lit ''dds'', Lit ''vm'', Lit ''jd'',
                   Lit ''md'', Lit ''phd''])
         (Seq (Opt (Cls isWhiteSpace)) Eos))"

text \<open>\<^verbatim>\<open>/^[A-Z]+$/\<close>, on code units as numbers.\<close>

definition regionPattern :: "nat regex" where
  "regionPattern = Seq Bos (Seq (Plus (\<lambda>n. 65 \<le> n \<and> n \<le> 90)) Eos)"


section \<open>Facts about matching\<close>

text \<open>What the termination of the suffix loop needs: a match of the suffix pattern is never empty.\<close>

lemma ends_bounds:
  "e \<in> set (ends r s i) \<Longrightarrow> i \<le> length s \<Longrightarrow> i \<le> e \<and> e \<le> length s"
proof (induction r arbitrary: i e)
  case (Lit w)
  then have "take (length w) (drop i s) = w" by (auto split: if_splits)
  then have "length (take (length w) (drop i s)) = length w" by simp
  then have "length w \<le> length s - i" by simp
  with Lit show ?case by (auto split: if_splits)
next
  case (Seq r1 r2)
  then obtain j where j: "j \<in> set (ends r1 s i)" and e: "e \<in> set (ends r2 s j)" by auto
  from Seq.IH(1) [OF j Seq.prems(2)] have "i \<le> j" "j \<le> length s" by auto
  moreover from Seq.IH(2) [OF e \<open>j \<le> length s\<close>] have "j \<le> e" "e \<le> length s" by auto
  ultimately show ?case by simp
next
  case (Star p)
  then have "i \<le> e \<and> e \<le> i + length (takeWhile p (drop i s))" by auto
  moreover have "length (takeWhile p (drop i s)) \<le> length s - i"
    by (metis length_drop length_takeWhile_le)
  ultimately show ?case using Star.prems(2) by arith
next
  case (Plus p)
  then have "i \<le> e \<and> e \<le> i + length (takeWhile p (drop i s))" by auto
  moreover have "length (takeWhile p (drop i s)) \<le> length s - i"
    by (metis length_drop length_takeWhile_le)
  ultimately show ?case using Plus.prems(2) by arith
qed (auto split: if_splits)

lemma ends_SeqE:
  assumes "e \<in> set (ends (Seq r1 r2) s i)"
  obtains j where "j \<in> set (ends r1 s i)" "e \<in> set (ends r2 s j)"
  using assms by auto

lemma exec_SomeD:
  assumes "exec r s = Some (i, e)"
  shows "i \<le> length s" "e \<in> set (ends r s i)" "\<forall>j < i. ends r s j = []"
proof -
  from assms have f: "find (\<lambda>i. ends r s i \<noteq> []) [0..<Suc (length s)] = Some i"
    and e: "e = hd (ends r s i)"
    by (auto simp: exec_def split: option.splits)
  from f obtain k where k: "k < length [0..<Suc (length s)]" "ends r s ([0..<Suc (length s)] ! k) \<noteq> []"
    "i = [0..<Suc (length s)] ! k" "\<forall>j < k. \<not> ends r s ([0..<Suc (length s)] ! j) \<noteq> []"
    unfolding find_Some_iff by blast
  from k(1) have kl: "k < Suc (length s)" by simp
  then have ik: "i = k" using k(3) by (metis add_0 nth_upt)
  show "i \<le> length s" using ik kl by simp
  show "e \<in> set (ends r s i)" using k(2,3) e by simp
  show "\<forall>j < i. ends r s j = []"
  proof (intro allI impI)
    fix j assume "j < i"
    then have "j < k" "j < Suc (length s)" using ik kl by auto
    then show "ends r s j = []" using k(4) by (metis add_0 nth_upt)
  qed
qed

lemma exec_None_iff: "exec r s = None \<longleftrightarrow> (\<forall>i \<le> length s. ends r s i = [])"
proof -
  have "exec r s = None \<longleftrightarrow> find (\<lambda>i. ends r s i \<noteq> []) [0..<Suc (length s)] = None"
    by (simp add: exec_def split: option.splits)
  also have "\<dots> \<longleftrightarrow> (\<forall>i \<in> set [0..<Suc (length s)]. ends r s i = [])"
    unfolding find_None_iff by blast
  also have "\<dots> \<longleftrightarrow> (\<forall>i \<le> length s. ends r s i = [])"
    by (auto simp del: upt_Suc simp: less_Suc_eq_le)
  finally show ?thesis .
qed

lemma suffixPattern_ends:
  assumes "e \<in> set (ends suffixPattern s i)" "i \<le> length s"
  shows "e = length s \<and> i < e"
proof -
  let ?sep = "Alt (Seq (Lit '','') (Star isWhiteSpace)) (Plus isWhiteSpace)"
  obtain tok where sp: "suffixPattern = Seq ?sep (Seq tok (Seq (Opt (Cls isWhiteSpace)) Eos))"
    by (simp add: suffixPattern_def)
  from assms(1) obtain j where j: "j \<in> set (ends ?sep s i)"
    and e1: "e \<in> set (ends (Seq tok (Seq (Opt (Cls isWhiteSpace)) Eos)) s j)"
    unfolding sp by (rule ends_SeqE)
  from e1 obtain k where k: "k \<in> set (ends tok s j)"
    and e2: "e \<in> set (ends (Seq (Opt (Cls isWhiteSpace)) Eos) s k)"
    by (rule ends_SeqE)
  from e2 have el: "e = length s" by (auto split: if_splits)
  from j have "i < j" by (auto split: if_splits)
  moreover have "j \<le> length s" using ends_bounds [OF j assms(2)] by simp
  then have "j \<le> e" using ends_bounds [OF e1] by simp
  ultimately show ?thesis using el by simp
qed

lemma replaceFirst_suffixPattern:
  assumes "test suffixPattern s"
  shows "\<exists>i < length s. replaceFirst suffixPattern s = take i s"
proof -
  from assms obtain i e where x: "exec suffixPattern s = Some (i, e)"
    by (auto simp: test_def)
  from exec_SomeD [OF x] suffixPattern_ends have "e = length s" "i < e" by blast+
  then show ?thesis using x by (auto simp: replaceFirst_def)
qed

lemma replaceFirst_shorter:
  "test suffixPattern s \<Longrightarrow> length (replaceFirst suffixPattern s) < length s"
  using replaceFirst_suffixPattern [of s] by auto

section \<open>Names, region codes and email addresses\<close>

text \<open>
  The loop of \<open>formatFamilyName\<close>:
  \<^verbatim>\<open>while (suffixPattern.test(withoutSuffix)) withoutSuffix = withoutSuffix.replace(suffixPattern, '')\<close>.
  Every round shortens the string, so the loop ends.
\<close>

function withoutSuffix :: "string \<Rightarrow> string" where
  "withoutSuffix s =
     (if test suffixPattern s then withoutSuffix (replaceFirst suffixPattern s) else s)"
  by pat_completeness auto
termination
  by (relation "measure length") (auto simp: replaceFirst_shorter)

declare withoutSuffix.simps [simp del]

definition formatGivenName :: "string arg \<Rightarrow> error + string" where
  "formatGivenName givenName =
     (case givenName of
        Val g \<Rightarrow>
          if g = [] then Inl (InvalidInput ''Given name is null or empty.'')
          else
            let trimmedGivenName = toLowerCase (trim g) in
            if trimmedGivenName = [] then Inl (InvalidInput ''Given name is empty or blank.'')
            else
              let withoutPrefix = trim (replaceFirst prefixPattern trimmedGivenName) in
              if withoutPrefix = [] then Inl (InvalidInput ''Given name consists solely of a prefix.'')
              else Inr withoutPrefix
      | _ \<Rightarrow> Inl (InvalidInput ''Given name is null or empty.''))"

definition formatFamilyName :: "string arg \<Rightarrow> error + string" where
  "formatFamilyName familyName =
     (case familyName of
        Val f \<Rightarrow>
          if f = [] then Inl (InvalidInput ''Family name is null or empty.'')
          else
            let trimmedFamilyName = toLowerCase (trim f) in
            if trimmedFamilyName = [] then Inl (InvalidInput ''Family name is empty or blank.'')
            else
              let withoutSuffix = withoutSuffix trimmedFamilyName in
              if withoutSuffix = [] then Inl (InvalidInput ''Family name consists solely of a suffix.'')
              else Inr withoutSuffix
      | _ \<Rightarrow> Inl (InvalidInput ''Family name is null or empty.''))"

text \<open>The decimal numeral of a number, as a template literal prints it.\<close>

fun decimal :: "nat \<Rightarrow> string" where
  "decimal n =
     (if n < 10 then [''0123456789'' ! n] else decimal (n div 10) @ [''0123456789'' ! (n mod 10)])"

declare decimal.simps [simp del]

text \<open>
  The upper-cased string is a list of code units as numbers (see \<open>toUpperCase\<close>); the
  string that is returned has passed the test for \<^verbatim>\<open>[A-Z]\<close>, so its code units are
  characters again.
\<close>

definition formatRegionCode :: "string arg \<Rightarrow> error + string" where
  "formatRegionCode regionCode =
     (case regionCode of
        Val r \<Rightarrow>
          if r = [] then Inl (InvalidInput ''Region code is null or empty.'')
          else
            let trimmedRegionCode = toUpperCase (trim r) in
            if trimmedRegionCode = [] then Inl (InvalidInput ''Region code is empty or blank.'')
            else if length trimmedRegionCode \<noteq> 2
            then Inl (InvalidInput (''Region code length is '' @ decimal (length trimmedRegionCode)
                                     @ ''. Length must be 2''))
            else if \<not> test regionPattern trimmedRegionCode
            then Inl (InvalidInput ''Region code contains characters other than A-Z'')
            else Inr (map char_of trimmedRegionCode)
      | _ \<Rightarrow> Inl (InvalidInput ''Region code is null or empty.''))"

text \<open>\<^verbatim>\<open>s.split(sep)\<close> for a separator of one code unit.\<close>

fun split :: "'a \<Rightarrow> 'a list \<Rightarrow> 'a list list" where
  "split sep [] = [[]]"
| "split sep (c # cs) =
     (if c = sep then [] # split sep cs
      else (case split sep cs of p # ps \<Rightarrow> (c # p) # ps | [] \<Rightarrow> [[c]]))"

definition formatEmailAddress :: "string arg \<Rightarrow> error + string" where
  "formatEmailAddress emailAddress =
     (case emailAddress of
        Val a \<Rightarrow>
          if a = [] then Inl (InvalidInput ''Email address is null or empty.'')
          else
            let trimmedEmail = trim a in
            if trimmedEmail = [] then Inl (InvalidInput ''Email address is empty or blank.'')
            else if CHR '' '' \<in> set trimmedEmail
            then Inl (InvalidInput ''Email address contains intermediate whitespace.'')
            else
              let emailParts = split CHR ''@'' (toLowerCase trimmedEmail) in
              if length emailParts \<noteq> 2 then Inl (InvalidInput ''Email is not of the form user@domain'')
              else
                let username = emailParts ! 0; domain = emailParts ! 1 in
                if username = [] then Inl (InvalidInput ''Email address without the domain is empty'')
                else if domain = [] then Inl (InvalidInput ''Domain of email address is empty'')
                else
                  let username =
                        (if domain = ''gmail.com'' \<or> domain = ''googlemail.com''
                         then stripClass (\<lambda>c. c = CHR ''.'') username else username)
                  in
                    if username = []
                    then Inl (InvalidInput
                      ''Email address without the domain name is empty after normalization'')
                    else Inr (username @ ''@'' @ domain)
      | _ \<Rightarrow> Inl (InvalidInput ''Email address is null or empty.''))"

section \<open>Digest\<close>

type_synonym byte = "8 word"

text \<open>
  The UTF-8 encoding that \<^verbatim>\<open>hash.update(s)\<close> applies to a string: one byte for a code
  unit below U+0080, two bytes for the others of the range.
\<close>

definition utf8Char :: "char \<Rightarrow> byte list" where
  "utf8Char c =
     (let n = (of_char c :: nat)
      in if n < 128 then [of_nat n] else [of_nat (192 + n div 64), of_nat (128 + n mod 64)])"

definition utf8 :: "string \<Rightarrow> byte list" where
  "utf8 s = concat (map utf8Char s)"

text \<open>SHA-256 as in FIPS 180-4, which \<^verbatim>\<open>crypto.createHash('sha256')\<close> computes.\<close>

definition rotr :: "nat \<Rightarrow> 32 word \<Rightarrow> 32 word" where
  "rotr n x = drop_bit n x OR push_bit (32 - n) x"

definition Ch :: "32 word \<Rightarrow> 32 word \<Rightarrow> 32 word \<Rightarrow> 32 word" where
  "Ch x y z = (x AND y) XOR (NOT x AND z)"

definition Maj :: "32 word \<Rightarrow> 32 word \<Rightarrow> 32 word \<Rightarrow> 32 word" where
  "Maj x y z = (x AND y) XOR (x AND z) XOR (y AND z)"

definition bsig0 :: "32 word \<Rightarrow> 32 word" where
  "bsig0 x = rotr 2 x XOR rotr 13 x XOR rotr 22 x"

definition bsig1 :: "32 word \<Rightarrow> 32 word" where
  "bsig1 x = rotr 6 x XOR rotr 11 x XOR rotr 25 x"

definition ssig0 :: "32 word \<Rightarrow> 32 word" where
  "ssig0 x = rotr 7 x XOR rotr 18 x XOR drop_bit 3 x"

definition ssig1 :: "32 word \<Rightarrow> 32 word" where
  "ssig1 x = rotr 17 x XOR rotr 19 x XOR drop_bit 10 x"

text \<open>The sixty-four round constants, in the eight rows of the table of the standard.\<close>

definition K256 :: "32 word list" where
  "K256 = concat
    [[0x428a2f98, 0x71374491, 0xb5c0fbcf, 0xe9b5dba5, 0x3956c25b, 0x59f111f1, 0x923f82a4, 0xab1c5ed5],
     [0xd807aa98, 0x12835b01, 0x243185be, 0x550c7dc3, 0x72be5d74, 0x80deb1fe, 0x9bdc06a7, 0xc19bf174],
     [0xe49b69c1, 0xefbe4786, 0x0fc19dc6, 0x240ca1cc, 0x2de92c6f, 0x4a7484aa, 0x5cb0a9dc, 0x76f988da],
     [0x983e5152, 0xa831c66d, 0xb00327c8, 0xbf597fc7, 0xc6e00bf3, 0xd5a79147, 0x06ca6351, 0x14292967],
     [0x27b70a85, 0x2e1b2138, 0x4d2c6dfc, 0x53380d13, 0x650a7354, 0x766a0abb, 0x81c2c92e, 0x92722c85],
     [0xa2bfe8a1, 0xa81a664b, 0xc24b8b70, 0xc76c51a3, 0xd192e819, 0xd6990624, 0xf40e3585, 0x106aa070],
     [0x19a4c116, 0x1e376c08, 0x2748774c, 0x34b0bcb5, 0x391c0cb3, 0x4ed8aa4a, 0x5b9cca4f, 0x682e6ff3],
     [0x748f82ee, 0x78a5636f, 0x84c87814, 0x8cc70208, 0x90befffa, 0xa4506ceb, 0xbef9a3f7, 0xc67178f2]]"

definition H256 :: "32 word list" where
  "H256 = [0x6a09e667, 0xbb67ae85, 0x3c6ef372, 0xa54ff53a,
           0x510e527f, 0x9b05688c, 0x1f83d9ab, 0x5be0cd19]"

definition bytes32 :: "32 word \<Rightarrow> byte list" where
  "bytes32 w = [ucast (drop_bit 24 w), ucast (drop_bit 16 w), ucast (drop_bit 8 w), ucast w]"

definition bytes64 :: "64 word \<Rightarrow> byte list" where
  "bytes64 w = map (\<lambda>i. ucast (drop_bit (8 * i) w)) [7, 6, 5, 4, 3, 2, 1, 0]"

text \<open>Padding: the bit 1, zero bits up to 56 bytes modulo 64, the bit length in 64 bits.\<close>

definition pad :: "byte list \<Rightarrow> byte list" where
  "pad m = m @ [0x80] @ replicate ((119 - length m mod 64) mod 64) 0
             @ bytes64 (of_nat (8 * length m))"

definition be_word :: "byte list \<Rightarrow> 32 word" where
  "be_word bs = foldl (\<lambda>w b. push_bit 8 w OR ucast b) 0 bs"

fun words_of :: "byte list \<Rightarrow> 32 word list" where
  "words_of (a # b # c # d # rest) = be_word [a, b, c, d] # words_of rest"
| "words_of _ = []"

text \<open>The message schedule, newest word first: the list holds W(t-1), W(t-2), ...\<close>

fun schedule :: "nat \<Rightarrow> 32 word list \<Rightarrow> 32 word list" where
  "schedule 0 ws = ws"
| "schedule (Suc n) ws =
     schedule n ((ssig1 (ws ! 1) + ws ! 6 + ssig0 (ws ! 14) + ws ! 15) # ws)"

fun round256 :: "32 word list \<Rightarrow> 32 word \<times> 32 word \<Rightarrow> 32 word list" where
  "round256 [a, b, c, d, e, f, g, h] (k, w) =
     (let t1 = h + bsig1 e + Ch e f g + k + w;
          t2 = bsig0 a + Maj a b c
      in [t1 + t2, a, b, c, d + t1, e, f, g])"
| "round256 s _ = s"

definition compress :: "32 word list \<Rightarrow> byte list \<Rightarrow> 32 word list" where
  "compress hs block =
     map2 (+) hs (foldl round256 hs (zip K256 (rev (schedule 48 (rev (words_of block))))))"

function blocks :: "byte list \<Rightarrow> byte list list" where
  "blocks bs = (if length bs < 64 then [] else take 64 bs # blocks (drop 64 bs))"
  by pat_completeness auto
termination
  by (relation "measure length") auto

declare blocks.simps [simp del]

definition sha256 :: "byte list \<Rightarrow> byte list" where
  "sha256 m = concat (map bytes32 (foldl compress H256 (blocks (pad m))))"

definition hashString :: "string arg \<Rightarrow> error + byte list" where
  "hashString s =
     (case s of
        Val v \<Rightarrow>
          if trim v = [] then Inl (InvalidInput ''String is empty or blank.'')
          else Inr (sha256 (utf8 v))
      | _ \<Rightarrow> Inl (InvalidInput ''String is null.''))"

section \<open>Encoders\<close>

text \<open>\<^verbatim>\<open>buffer.toString('hex')\<close>\<close>

definition hexDigits :: string where
  "hexDigits = ''0123456789abcdef''"

definition toStringHex :: "byte list \<Rightarrow> string" where
  "toStringHex bs =
     concat (map (\<lambda>b. [hexDigits ! unat (drop_bit 4 b), hexDigits ! unat (b AND 15)]) bs)"

text \<open>\<^verbatim>\<open>buffer.toString('base64')\<close>\<close>

definition base64Chars :: string where
  "base64Chars = ''ABCDEFGHIJKLMNOPQRSTUVWXYZabcdefghijklmnopqrstuvwxyz0123456789+/''"

definition b64 :: "byte \<Rightarrow> char" where
  "b64 x = base64Chars ! unat x"

fun toStringBase64 :: "byte list \<Rightarrow> string" where
  "toStringBase64 (a # b # c # rest) =
     [b64 (drop_bit 2 a), b64 (push_bit 4 (a AND 3) OR drop_bit 4 b),
      b64 (push_bit 2 (b AND 15) OR drop_bit 6 c), b64 (c AND 63)] @ toStringBase64 rest"
| "toStringBase64 [a, b] =
     [b64 (drop_bit 2 a), b64 (push_bit 4 (a AND 3) OR drop_bit 4 b),
      b64 (push_bit 2 (b AND 15)), CHR ''='']"
| "toStringBase64 [a] = [b64 (drop_bit 2 a), b64 (push_bit 4 (a AND 3)), CHR ''='', CHR ''='']"
| "toStringBase64 [] = []"

definition hexEncode :: "byte list arg \<Rightarrow> error + string" where
  "hexEncode bytes =
     (case bytes of
        Val b \<Rightarrow>
          if length b = 0 then Inl (InvalidInput ''Byte array is empty.'')
          else Inr (toStringHex b)
      | _ \<Rightarrow> Inl (InvalidInput ''Byte array is null.''))"

definition base64Encode :: "byte list arg \<Rightarrow> error + string" where
  "base64Encode bytes =
     (case bytes of
        Val b \<Rightarrow>
          if length b = 0 then Inl (InvalidInput ''Byte array is empty.'')
          else Inr (toStringBase64 b)
      | _ \<Rightarrow> Inl (InvalidInput ''Byte array is null.''))"

section \<open>Standard decoders\<close>

text \<open>
  The decoders the encoders are compared with: hexadecimal digits of either case, two
  per byte, and base64 as in RFC 4648, four characters per group of three bytes with
  \<open>=\<close> padding in the last group.
\<close>

fun indexOf :: "'a \<Rightarrow> 'a list \<Rightarrow> nat option" where
  "indexOf x [] = None"
| "indexOf x (y # ys) = (if x = y then Some 0 else map_option Suc (indexOf x ys))"

definition hexValue :: "char \<Rightarrow> byte option" where
  "hexValue c =
     (case indexOf c ''0123456789abcdef'' of
        Some n \<Rightarrow> Some (of_nat n)
      | None \<Rightarrow> map_option (\<lambda>n. of_nat (10 + n)) (indexOf c ''ABCDEF''))"

fun hexDecode :: "string \<Rightarrow> byte list option" where
  "hexDecode [] = Some []"
| "hexDecode [c] = None"
| "hexDecode (h # l # rest) =
     (case (hexValue h, hexValue l, hexDecode rest) of
        (Some a, Some b, Some bs) \<Rightarrow> Some ((push_bit 4 a OR b) # bs)
      | _ \<Rightarrow> None)"

definition base64Value :: "char \<Rightarrow> byte option" where
  "base64Value c = map_option of_nat (indexOf c base64Chars)"

fun base64Decode :: "string \<Rightarrow> byte list option" where
  "base64Decode [] = Some []"
| "base64Decode (c1 # c2 # c3 # c4 # rest) =
     (if rest = [] \<and> c3 = CHR ''='' \<and> c4 = CHR ''=''
      then (case (base64Value c1, base64Value c2) of
              (Some s1, Some s2) \<Rightarrow> Some [push_bit 2 s1 OR drop_bit 4 s2]
            | _ \<Rightarrow> None)
      else if rest = [] \<and> c4 = CHR ''=''
      then (case (base64Value c1, base64Value c2, base64Value c3) of
              (Some s1, Some s2, Some s3) \<Rightarrow>
                Some [push_bit 2 s1 OR drop_bit 4 s2, push_bit 4 s2 OR drop_bit 2 s3]
            | _ \<Rightarrow> None)
      else (case (base64Value c1, base64Value c2, base64Value c3, base64Value c4,
                  base64Decode rest) of
              (Some s1, Some s2, Some s3, Some s4, Some bs) \<Rightarrow>
                Some ((push_bit 2 s1 OR drop_bit 4 s2) # (push_bit 4 s2 OR drop_bit 2 s3)
                      # (push_bit 6 s3 OR s4) # bs)
            | _ \<Rightarrow> None))"
| "base64Decode _ = None"

section \<open>Process operations\<close>

text \<open>
  The values of the enum \<^verbatim>\<open>Encoding\<close> are the strings \<^verbatim>\<open>'hex'\<close> and
  \<^verbatim>\<open>'base64'\<close>; an encoding argument is any string, the other strings being the
  values the enum does not have.
\<close>

definition HEX :: string where
  "HEX = ''hex''"

definition BASE64 :: string where
  "BASE64 = ''base64''"

definition encode :: "byte list \<Rightarrow> string \<Rightarrow> error + string" where
  "encode bytes encoding =
     (if encoding = ''hex'' then hexEncode (Val bytes)
      else if encoding = ''base64'' then base64Encode (Val bytes)
      else Inl (InvalidInput (''Invalid encoding: '' @ encoding)))"

definition hashAndEncode :: "string \<Rightarrow> string \<Rightarrow> error + string" where
  "hashAndEncode normalizedString encoding =
     (case hashString (Val normalizedString) of
        Inl err \<Rightarrow> Inl err
      | Inr hashBytes \<Rightarrow> encode hashBytes encoding)"

definition processEmailAddress :: "string arg \<Rightarrow> string \<Rightarrow> error + string" where
  "processEmailAddress email encoding =
     (case formatEmailAddress email of
        Inl err \<Rightarrow> Inl err
      | Inr normalized \<Rightarrow> hashAndEncode normalized encoding)"

definition processPhoneNumber :: "string arg \<Rightarrow> string \<Rightarrow> error + string" where
  "processPhoneNumber phoneNumber encoding =
     (case formatPhoneNumber phoneNumber of
        Inl err \<Rightarrow> Inl err
      | Inr normalized \<Rightarrow> hashAndEncode normalized encoding)"

definition processGivenName :: "string arg \<Rightarrow> string \<Rightarrow> error + string" where
  "processGivenName givenName encoding =
     (case formatGivenName givenName of
        Inl err \<Rightarrow> Inl err
      | Inr normalized \<Rightarrow> hashAndEncode normalized encoding)"

definition processFamilyName :: "string arg \<Rightarrow> string \<Rightarrow> error + string" where
  "processFamilyName familyName encoding =
     (case formatFamilyName familyName of
        Inl err \<Rightarrow> Inl err
      | Inr normalized \<Rightarrow> hashAndEncode normalized encoding)"

definition processRegionCode :: "string arg \<Rightarrow> error + string" where
  "processRegionCode regionCode = formatRegionCode regionCode"

definition processPostalCode :: "string arg \<Rightarrow> error + string" where
  "processPostalCode postalCode = formatPostalCode postalCode"

section \<open>Properties named by the specification\<close>

text \<open>
  The invariant the specification gives a NormalizedField: never empty, no leading and no
  trailing whitespace.
\<close>

definition normalizedField :: "string \<Rightarrow> bool" where
  "normalizedField y \<longleftrightarrow> y \<noteq> [] \<and> \<not> isWhiteSpace (hd y) \<and> \<not> isWhiteSpace (last y)"

text \<open>A call fails with the error the specification names InvalidInput.\<close>

fun failsInvalidInput :: "error + 'a \<Rightarrow> bool" where
  "failsInvalidInput (Inl (InvalidInput message)) = True"
| "failsInvalidInput (Inr v) = False"

text \<open>
  A function of a string argument rejects the absent and the blank inputs: it fails
  with InvalidInput for \<^verbatim>\<open>null\<close>, for \<^verbatim>\<open>undefined\<close> and for a string that is empty
  after trimming.
\<close>

definition failsOnAbsent :: "(string arg \<Rightarrow> error + 'a) \<Rightarrow> string \<Rightarrow> bool" where
  "failsOnAbsent f s \<longleftrightarrow>
     failsInvalidInput (f Null) \<and> failsInvalidInput (f Undefined)
     \<and> (trim s = [] \<longrightarrow> failsInvalidInput (f (Val s)))"

section \<open>The test suite of the repository\<close>

text \<open>The expectations of \<^verbatim>\<open>formatter.test.ts\<close>, evaluated on the model.\<close>

lemma test_formatEmailAddress:
  "formatEmailAddress (Val ''QuinnY@example.com'') = Inr ''quinny@example.com''
   \<and> formatEmailAddress (Val ''QuinnY@EXAMPLE.com'') = Inr ''quinny@example.com''
   \<and> failsInvalidInput (formatEmailAddress Null)
   \<and> failsInvalidInput (formatEmailAddress Undefined)
   \<and> failsInvalidInput (formatEmailAddress (Val ''@example.com''))
   \<and> failsInvalidInput (formatEmailAddress (Val ''quinn''))
   \<and> formatEmailAddress (Val ''jefferson.Loves.hiking@gmail.com'')
       = Inr ''jeffersonloveshiking@gmail.com''
   \<and> formatEmailAddress (Val ''j.e.f..ferson.Loves.hiking@gmail.com'')
       = Inr ''jeffersonloveshiking@gmail.com''
   \<and> formatEmailAddress (Val ''jefferson.Loves.hiking@googlemail.com'')
       = Inr ''jeffersonloveshiking@googlemail.com''"
  by code_simp

lemma test_formatPhoneNumber:
  "formatPhoneNumber (Val ''1 800 555 0100'') = Inr ''+18005550100''
   \<and> formatPhoneNumber (Val ''18005550100'') = Inr ''+18005550100''
   \<and> formatPhoneNumber (Val ''+1 800-555-0100'') = Inr ''+18005550100''
   \<and> formatPhoneNumber (Val ''441134960987'') = Inr ''+441134960987''
   \<and> formatPhoneNumber (Val ''+441134960987'') = Inr ''+441134960987''
   \<and> formatPhoneNumber (Val ''+44-113-496-0987'') = Inr ''+441134960987''
   \<and> failsInvalidInput (formatPhoneNumber Null)
   \<and> failsInvalidInput (formatPhoneNumber Undefined)
   \<and> failsInvalidInput (formatPhoneNumber (Val ''+abc-DEF''))
   \<and> failsInvalidInput (formatPhoneNumber (Val ''++++''))"
  by code_simp

lemma test_formatGivenName:
  "formatGivenName (Val '' Alex   '') = Inr ''alex''
   \<and> formatGivenName (Val '' Mr. Alex   '') = Inr ''alex''
   \<and> formatGivenName (Val '' Mrs. Alex   '') = Inr ''alex''
   \<and> formatGivenName (Val '' Dr. Alex   '') = Inr ''alex''
   \<and> formatGivenName (Val '' Alex Dr.'') = Inr ''alex dr.''
   \<and> formatGivenName (Val '' Mralex   '') = Inr ''mralex''
   \<and> failsInvalidInput (formatGivenName Null)
   \<and> failsInvalidInput (formatGivenName Undefined)
   \<and> failsInvalidInput (formatGivenName (Val '' ''))
   \<and> failsInvalidInput (formatGivenName (Val '' Mr. ''))"
  by code_simp

lemma test_formatFamilyName:
  "formatFamilyName (Val '' Quinn   '') = Inr ''quinn''
   \<and> formatFamilyName (Val ''Quinn-Alex'') = Inr ''quinn-alex''
   \<and> formatFamilyName (Val '' Quinn, Jr.   '') = Inr ''quinn''
   \<and> formatFamilyName (Val '' Quinn,Jr.   '') = Inr ''quinn''
   \<and> formatFamilyName (Val '' Quinn Sr.  '') = Inr ''quinn''
   \<and> formatFamilyName (Val ''quinn, jr. dds'') = Inr ''quinn''
   \<and> formatFamilyName (Val ''quinn, jr., dds'') = Inr ''quinn''
   \<and> formatFamilyName (Val ''Boardds'') = Inr ''boardds''
   \<and> formatFamilyName (Val ''lacparm'') = Inr ''lacparm''
   \<and> failsInvalidInput (formatFamilyName Null)
   \<and> failsInvalidInput (formatFamilyName Undefined)
   \<and> failsInvalidInput (formatFamilyName (Val '' ''))
   \<and> failsInvalidInput (formatFamilyName (Val '', Jr. ''))
   \<and> failsInvalidInput (formatFamilyName (Val '',Jr.,DDS ''))"
  by code_simp

lemma test_formatRegionCode:
  "formatRegionCode (Val ''us'') = Inr ''US''
   \<and> formatRegionCode (Val ''us  '') = Inr ''US''
   \<and> formatRegionCode (Val ''  us  '') = Inr ''US''
   \<and> failsInvalidInput (formatRegionCode Null)
   \<and> failsInvalidInput (formatRegionCode Undefined)
   \<and> failsInvalidInput (formatRegionCode (Val []))
   \<and> failsInvalidInput (formatRegionCode (Val ''  ''))
   \<and> failsInvalidInput (formatRegionCode (Val ''u''))
   \<and> formatRegionCode (Val '' usa '')
       = Inl (InvalidInput ''Region code length is 3. Length must be 2'')
   \<and> failsInvalidInput (formatRegionCode (Val '' u s ''))
   \<and> failsInvalidInput (formatRegionCode (Val '' u2 ''))"
  by code_simp

lemma test_formatPostalCode:
  "formatPostalCode (Val ''94045'') = Inr ''94045''
   \<and> formatPostalCode (Val '' 94045  '') = Inr ''94045''
   \<and> formatPostalCode (Val ''1229-076'') = Inr ''1229-076''
   \<and> formatPostalCode (Val ''  1229-076  '') = Inr ''1229-076''
   \<and> failsInvalidInput (formatPostalCode Null)
   \<and> failsInvalidInput (formatPostalCode Undefined)
   \<and> failsInvalidInput (formatPostalCode (Val []))
   \<and> failsInvalidInput (formatPostalCode (Val ''  ''))"
  by code_simp

lemma test_encoders:
  "hexEncode (Val (utf8 ''acK123'')) = Inr ''61634b313233''
   \<and> hexEncode (Val (utf8 ''999_XYZ'')) = Inr ''3939395f58595a''
   \<and> base64Encode (Val (utf8 ''acK123'')) = Inr ''YWNLMTIz''
   \<and> base64Encode (Val (utf8 ''999_XYZ'')) = Inr ''OTk5X1hZWg==''
   \<and> failsInvalidInput (hexEncode (Val []))
   \<and> failsInvalidInput (base64Encode (Val []))"
  by code_simp

section \<open>Facts about trimming\<close>

lemma all_dropWhile: "(\<forall>x \<in> set (dropWhile P s). P x) \<longleftrightarrow> (\<forall>x \<in> set s. P x)"
  by (induction s) auto

lemma trim_Nil_iff: "trim s = [] \<longleftrightarrow> (\<forall>c \<in> set s. isWhiteSpace c)"
  by (simp add: trim_def dropWhile_eq_Nil_conv all_dropWhile)

lemma trim_sublist: "\<exists>p q. s = p @ trim s @ q \<and> (\<forall>c \<in> set p. isWhiteSpace c) \<and> (\<forall>c \<in> set q. isWhiteSpace c)"
proof -
  let ?p = "takeWhile isWhiteSpace s"
  let ?d = "dropWhile isWhiteSpace s"
  let ?q = "rev (takeWhile isWhiteSpace (rev ?d))"
  have "rev ?d = takeWhile isWhiteSpace (rev ?d) @ dropWhile isWhiteSpace (rev ?d)"
    by simp
  then have "?d = rev (dropWhile isWhiteSpace (rev ?d)) @ ?q"
    by (metis rev_append rev_rev_ident)
  then have "s = ?p @ trim s @ ?q"
    by (metis takeWhile_dropWhile_id trim_def)
  moreover have "\<forall>c \<in> set ?p. isWhiteSpace c"
    by (auto dest: set_takeWhileD)
  moreover have "\<forall>c \<in> set ?q. isWhiteSpace c"
    by (auto dest: set_takeWhileD)
  ultimately show ?thesis by blast
qed

lemma filter_trim:
  assumes "\<And>c. isWhiteSpace c \<Longrightarrow> \<not> P c"
  shows "filter P (trim s) = filter P s"
proof -
  obtain p q where s: "s = p @ trim s @ q"
    and p: "\<forall>c \<in> set p. isWhiteSpace c" and q: "\<forall>c \<in> set q. isWhiteSpace c"
    using trim_sublist by blast
  have "filter P p = []" "filter P q = []"
    using p q assms by (auto simp: filter_empty_conv)
  then have "filter P (p @ trim s @ q) = filter P (trim s)"
    by simp
  with s show ?thesis by simp
qed

lemma digit_not_space: "isWhiteSpace c \<Longrightarrow> \<not> isDigit c"
  by (auto simp: isWhiteSpace_def isDigit_def)

section \<open>Phone numbers\<close>

text \<open>
  Claim C6. For a string that is not blank, \<open>formatPhoneNumber\<close> returns \<open>+\<close> followed
  by the digits of the trimmed input, in their order and with every other character
  removed, and it fails exactly when no digit remains. Nothing else is checked: every
  string that holds a digit is accepted, and the digits are those of the input itself.
\<close>

theorem formatPhoneNumber_digits:
  "(trim s \<noteq> [] \<longrightarrow>
      formatPhoneNumber (Val s) =
        (if filter isDigit (trim s) = [] then Inl (InvalidInput ''Phone number contains no digits.'')
         else Inr (CHR ''+'' # filter isDigit (trim s))))
   \<and> ((\<exists>c \<in> set s. isDigit c) \<longrightarrow>
        formatPhoneNumber (Val s) = Inr (CHR ''+'' # filter isDigit s))"
proof (intro conjI impI)
  assume ne: "trim s \<noteq> []"
  then have "s \<noteq> []" by (auto simp: trim_def)
  with ne show "formatPhoneNumber (Val s) =
        (if filter isDigit (trim s) = [] then Inl (InvalidInput ''Phone number contains no digits.'')
         else Inr (CHR ''+'' # filter isDigit (trim s)))"
    by (simp add: formatPhoneNumber_def stripClass_def Let_def)
next
  assume "\<exists>c \<in> set s. isDigit c"
  then obtain c where c: "c \<in> set s" "isDigit c" by blast
  then have f: "filter isDigit s \<noteq> []"
    by (auto simp: filter_empty_conv)
  have t: "filter isDigit (trim s) = filter isDigit s"
    by (rule filter_trim) (rule digit_not_space)
  from c have "\<not> (\<forall>c \<in> set s. isWhiteSpace c)"
    using digit_not_space by blast
  then have ne: "trim s \<noteq> []" by (simp add: trim_Nil_iff)
  moreover from c have "s \<noteq> []" by auto
  ultimately show "formatPhoneNumber (Val s) = Inr (CHR ''+'' # filter isDigit s)"
    using f t by (simp add: formatPhoneNumber_def stripClass_def Let_def)
qed

theorem formatPhoneNumber_digits_witness:
  "trim ''+44-113-496-0987'' \<noteq> [] \<and> (\<exists>c \<in> set ''+44-113-496-0987''. isDigit c)
   \<and> formatPhoneNumber (Val ''+44-113-496-0987'') = Inr ''+441134960987''
   \<and> formatPhoneNumber (Val ''441134960987'') = Inr ''+441134960987''"
proof -
  have d: "isDigit CHR ''4''" by (simp add: isDigit_def)
  have 1: "\<exists>c \<in> set ''+44-113-496-0987''. isDigit c" using d by simp
  have 2: "\<exists>c \<in> set ''441134960987''. isDigit c" using d by simp
  have 3: "trim ''+44-113-496-0987'' \<noteq> []" using 1 digit_not_space by (auto simp: trim_Nil_iff)
  have f1: "filter isDigit ''+44-113-496-0987'' = ''441134960987''" by (simp add: isDigit_def)
  have f2: "filter isDigit ''441134960987'' = ''441134960987''" by (simp add: isDigit_def)
  have a: "formatPhoneNumber (Val ''+44-113-496-0987'') = Inr ''+441134960987''"
    using formatPhoneNumber_digits [of "''+44-113-496-0987''", THEN conjunct2, THEN mp, OF 1]
    by (simp only: f1)
  have b: "formatPhoneNumber (Val ''441134960987'') = Inr ''+441134960987''"
    using formatPhoneNumber_digits [of "''441134960987''", THEN conjunct2, THEN mp, OF 2]
    by (simp only: f2)
  from 1 3 a b show ?thesis by blast
qed

section \<open>Facts about case folding and suffix stripping\<close>

lemma lowerChar_idem: "lowerChar (lowerChar c) = lowerChar c"
  by (auto simp: lowerChar_def Let_def)

lemma lowerChar_space: "isWhiteSpace (lowerChar c) \<longleftrightarrow> isWhiteSpace c"
  by (auto simp: lowerChar_def Let_def isWhiteSpace_def)

lemma toLowerCase_idem: "toLowerCase (toLowerCase s) = toLowerCase s"
  by (simp add: toLowerCase_def lowerChar_idem)

lemma trim_hd_last:
  assumes "trim s \<noteq> []"
  shows "\<not> isWhiteSpace (hd (trim s))" "\<not> isWhiteSpace (last (trim s))"
proof -
  let ?d = "dropWhile isWhiteSpace s"
  let ?r = "dropWhile isWhiteSpace (rev ?d)"
  from assms have r: "?r \<noteq> []" by (simp add: trim_def)
  then have "\<not> isWhiteSpace (hd ?r)" by (rule hd_dropWhile)
  then show "\<not> isWhiteSpace (last (trim s))"
    using r by (simp add: trim_def last_rev)
  have d: "?d \<noteq> []"
  proof
    assume a: "?d = []"
    have "?r = dropWhile isWhiteSpace (rev [])" by (simp only: a)
    with r show False by simp
  qed
  then have h: "\<not> isWhiteSpace (hd ?d)" by (rule hd_dropWhile)
  obtain q where "rev ?d = q @ ?r"
    by (metis takeWhile_dropWhile_id)
  then have "?d = rev ?r @ rev q" by (metis rev_append rev_rev_ident)
  then have "hd ?d = hd (rev ?r)" using r by (metis hd_append2 rev_is_Nil_conv)
  with h show "\<not> isWhiteSpace (hd (trim s))" by (simp add: trim_def)
qed

lemma trim_id:
  assumes "s \<noteq> []" "\<not> isWhiteSpace (hd s)" "\<not> isWhiteSpace (last s)"
  shows "trim s = s"
proof -
  from assms(1,2) have 1: "dropWhile isWhiteSpace s = s"
    by (cases s) auto
  from assms(1,3) have "dropWhile isWhiteSpace (rev s) = rev s"
    by (cases "rev s") (auto simp: hd_rev)
  with 1 show ?thesis by (simp add: trim_def)
qed

lemma trim_trim: "trim (trim s) = trim s"
proof (cases "trim s = []")
  case True
  have "trim [] = []" by (simp add: trim_def)
  with True show ?thesis by simp
next
  case False
  then show ?thesis using trim_hd_last [of s] by (intro trim_id)
qed

lemma withoutSuffix_take: "\<exists>n. withoutSuffix s = take n s"
proof (induction s rule: withoutSuffix.induct)
  case (1 s)
  show ?case
  proof (cases "test suffixPattern s")
    case True
    then obtain i where i: "i < length s" "replaceFirst suffixPattern s = take i s"
      using replaceFirst_suffixPattern by blast
    from 1 [OF True] obtain n where "withoutSuffix (take i s) = take n (take i s)"
      using i by auto
    then have "withoutSuffix s = take (min n i) s"
      using True i by (simp add: withoutSuffix.simps [of s])
    then show ?thesis by blast
  next
    case False
    then have "withoutSuffix s = take (length s) s"
      by (simp add: withoutSuffix.simps [of s])
    then show ?thesis by blast
  qed
qed

lemma withoutSuffix_done: "\<not> test suffixPattern (withoutSuffix s)"
proof (induction s rule: withoutSuffix.induct)
  case (1 s)
  then show ?case
    by (cases "test suffixPattern s") (simp_all add: withoutSuffix.simps [of s])
qed

lemma withoutSuffix_fixed: "\<not> test suffixPattern s \<Longrightarrow> withoutSuffix s = s"
  by (simp add: withoutSuffix.simps [of s])

lemma formatFamilyName_SomeD:
  assumes "formatFamilyName (Val x) = Inr y"
  shows "y = withoutSuffix (toLowerCase (trim x))" "y \<noteq> []" "trim x \<noteq> []"
  using assms by (auto simp: formatFamilyName_def Let_def toLowerCase_def split: if_splits)

lemma family_prefix:
  assumes "formatFamilyName (Val x) = Inr y"
  shows "y \<noteq> []" "\<not> isWhiteSpace (hd y)" "toLowerCase y = y"
proof -
  note d = formatFamilyName_SomeD [OF assms]
  show ne: "y \<noteq> []" by (rule d(2))
  obtain n where n: "y = take n (toLowerCase (trim x))"
    using d(1) withoutSuffix_take by blast
  with ne have "hd y = hd (toLowerCase (trim x))"
    by (metis hd_take take_eq_Nil not_gr_zero)
  also have "\<dots> = lowerChar (hd (trim x))"
    using d(3) by (simp add: toLowerCase_def hd_map)
  finally show "\<not> isWhiteSpace (hd y)"
    using trim_hd_last(1) [OF d(3)] by (simp add: lowerChar_space)
  show "toLowerCase y = y"
    unfolding n toLowerCase_def by (simp add: take_map lowerChar_idem)
qed

section \<open>Family names\<close>

text \<open>
  Re-applying \<open>formatFamilyName\<close> changes nothing whenever the first result does not
  end in a whitespace character: whitespace left at the end of a result is the only way
  idempotence is lost.
\<close>

lemma formatFamilyName_idempotent_trimmed:
  assumes "formatFamilyName (Val x) = Inr y" "\<not> isWhiteSpace (last y)"
  shows "formatFamilyName (Val y) = Inr y"
proof -
  note p = family_prefix [OF assms(1)]
  have t: "trim y = y" using p(1,2) assms(2) by (rule trim_id)
  have "y = withoutSuffix (toLowerCase (trim x))"
    by (rule formatFamilyName_SomeD(1) [OF assms(1)])
  then have "\<not> test suffixPattern y" using withoutSuffix_done by simp
  then have "withoutSuffix y = y" by (rule withoutSuffix_fixed)
  then show ?thesis using p(1,3) t by (simp add: formatFamilyName_def)
qed

text \<open>
  Claim C2. The code breaks it: the match of the suffix pattern in \<open>quinn , jr\<close> starts
  at the comma, so the space before the comma is left at the end of the result, and a
  second application trims that space and returns another string. A result is not
  always a valid input either: the two spaces of the second input keep \<open>,v\<close> from the
  pattern, and once they are trimmed the whole name is a suffix and is rejected.
  \<open>formatGivenName\<close> trims after it has removed its prefix; \<open>formatFamilyName\<close> does not
  trim after it has removed its suffixes.
\<close>

theorem formatFamilyName_reapplied_differs:
  "formatFamilyName (Val ''quinn , jr'') = Inr ''quinn ''
   \<and> formatFamilyName (Val ''quinn '') = Inr ''quinn''
   \<and> formatFamilyName (Val ''quinn '') \<noteq> formatFamilyName (Val ''quinn , jr'')
   \<and> formatFamilyName (Val '',v  , jr'') = Inr '',v  ''
   \<and> failsInvalidInput (formatFamilyName (Val '',v  ''))"
  by code_simp

section \<open>Email addresses\<close>

text \<open>
  Claim C4. The guard of the source is \<^verbatim>\<open>trimmedEmail.includes(' ')\<close>, with the message
  "Email address contains intermediate whitespace.": it looks for U+0020 only. An
  address with a TAB inside passes every check and is returned with the TAB in it.
\<close>

theorem formatEmailAddress_keeps_tab:
  "isWhiteSpace (CHR 0x09)
   \<and> CHR 0x09 \<in> set (trim (''alex'' @ [CHR 0x09] @ ''z@example.com''))
   \<and> formatEmailAddress (Val (''alex'' @ [CHR 0x09] @ ''z@example.com''))
       = Inr (''alex'' @ [CHR 0x09] @ ''z@example.com'')"
  by code_simp


section \<open>Facts about normalized fields\<close>

lemma failsInvalidInput_iff: "failsInvalidInput x \<longleftrightarrow> (\<exists>m. x = Inl (InvalidInput m))"
  by (cases x rule: failsInvalidInput.cases) auto

lemma normalizedField_trim: "trim s \<noteq> [] \<Longrightarrow> normalizedField (trim s)"
  by (simp add: normalizedField_def trim_hd_last)

lemma phone_normalized:
  assumes "formatPhoneNumber r = Inr y"
  shows "normalizedField y"
proof -
  from assms obtain p where y: "y = CHR ''+'' # filter isDigit (trim p)"
    and ne: "filter isDigit (trim p) \<noteq> []"
    by (auto simp: formatPhoneNumber_def stripClass_def Let_def split: arg.splits if_splits)
  from ne have "last (filter isDigit (trim p)) \<in> set (filter isDigit (trim p))"
    by (rule last_in_set)
  then have "isDigit (last y)" using y ne by simp
  then have "\<not> isWhiteSpace (last y)" using digit_not_space by blast
  moreover have "\<not> isWhiteSpace (hd y)" by (simp add: y isWhiteSpace_def)
  ultimately show ?thesis by (simp add: normalizedField_def y)
qed

lemma given_normalized: "formatGivenName r = Inr y \<Longrightarrow> normalizedField y"
  by (auto simp: formatGivenName_def Let_def normalizedField_trim split: arg.splits if_splits)

lemma postal_normalized: "formatPostalCode r = Inr y \<Longrightarrow> normalizedField y"
  by (auto simp: formatPostalCode_def Let_def normalizedField_trim split: arg.splits if_splits)

section \<open>Region codes\<close>

lemma ends_Seq_nonempty:
  "ends (Seq r1 r2) s i \<noteq> [] \<longleftrightarrow> (\<exists>j \<in> set (ends r1 s i). ends r2 s j \<noteq> [])"
  by auto

lemma set_ends_Plus:
  "set (ends (Plus p) s i) = {m. i < m \<and> m \<le> i + length (takeWhile p (drop i s))}"
proof -
  define k where "k = length (takeWhile p (drop i s))"
  have "set (ends (Plus p) s i) = (\<lambda>n. i + n) ` {1..k}"
    by (simp only: ends.simps set_map set_rev set_upt k_def atLeastLessThanSuc_atLeastAtMost)
  also have "\<dots> = {m. i < m \<and> m \<le> i + k}"
  proof (intro equalityI subsetI)
    fix m assume "m \<in> (\<lambda>n. i + n) ` {1..k}"
    then show "m \<in> {m. i < m \<and> m \<le> i + k}" by auto
  next
    fix m assume "m \<in> {m. i < m \<and> m \<le> i + k}"
    then have "m = i + (m - i)" "m - i \<in> {1..k}" by auto
    then show "m \<in> (\<lambda>n. i + n) ` {1..k}" by (rule image_eqI)
  qed
  finally show ?thesis by (simp add: k_def)
qed

lemma regionPattern_ends: "ends regionPattern u i \<noteq> [] \<longleftrightarrow> i = 0 \<and> 1 \<le> length u \<and> length u \<le> length (takeWhile (\<lambda>n::nat. 65 \<le> n \<and> n \<le> 90) u)"
proof -
  let ?p = "\<lambda>n::nat. 65 \<le> n \<and> n \<le> 90"
  have "ends regionPattern u i \<noteq> [] \<longleftrightarrow>
      (\<exists>j \<in> set (ends Bos u i). \<exists>m \<in> set (ends (Plus ?p) u j). ends Eos u m \<noteq> [])"
    unfolding regionPattern_def ends_Seq_nonempty ..
  also have "\<dots> \<longleftrightarrow> i = 0 \<and> (\<exists>m \<in> set (ends (Plus ?p) u 0). m = length u)"
    by (cases "i = 0") (simp_all del: ends.simps(7))
  also have "\<dots> \<longleftrightarrow> i = 0 \<and> 1 \<le> length u \<and> length u \<le> length (takeWhile ?p u)"
    unfolding set_ends_Plus by (auto simp: Suc_le_eq)
  finally show ?thesis .
qed

lemma takeWhile_all_length: "u \<noteq> [] \<and> length u \<le> length (takeWhile P u) \<longleftrightarrow> u \<noteq> [] \<and> (\<forall>n \<in> set u. P n)"
proof -
  have "length u \<le> length (takeWhile P u) \<longleftrightarrow> length (takeWhile P u) = length u"
    using length_takeWhile_le [of P u] by auto
  also have "\<dots> \<longleftrightarrow> takeWhile P u = u"
    by (metis takeWhile_dropWhile_id append_eq_conv_conj length_0_conv dropWhile_eq_drop drop_all
        order_refl self_append_conv)
  finally show ?thesis by (simp add: takeWhile_eq_all_conv)
qed


lemma regionPattern_test:
  "test regionPattern u \<longleftrightarrow> u \<noteq> [] \<and> (\<forall>n \<in> set u. 65 \<le> n \<and> n \<le> 90)"
proof -
  let ?p = "\<lambda>n::nat. 65 \<le> n \<and> n \<le> 90"
  have "test regionPattern u \<longleftrightarrow> (\<exists>i \<le> length u. ends regionPattern u i \<noteq> [])"
    by (simp add: test_def exec_None_iff)
  also have "\<dots> \<longleftrightarrow> u \<noteq> [] \<and> length u \<le> length (takeWhile ?p u)"
    unfolding regionPattern_ends by (auto simp: Suc_le_eq)
  finally show ?thesis by (simp only: takeWhile_all_length)
qed

lemma upperUnits_length: "1 \<le> length (upperUnits c)"
  by (simp add: upperUnits_def Let_def)

lemma toUpperCase_length: "length s \<le> length (toUpperCase s)"
proof (induction s)
  case Nil
  then show ?case by (simp add: toUpperCase_def)
next
  case (Cons c s)
  then show ?case using upperUnits_length [of c] by (simp add: toUpperCase_def)
qed

lemma upperUnits_digit: "isDigit c \<Longrightarrow> \<exists>n \<in> set (upperUnits c). n < 65"
  by (auto simp: isDigit_def upperUnits_def Let_def)

lemma toUpperCase_digit:
  assumes "c \<in> set s" "isDigit c"
  shows "\<exists>n \<in> set (toUpperCase s). n < 65"
  using assms upperUnits_digit by (fastforce simp: toUpperCase_def)

lemma formatRegionCode_fails_iff:
  "failsInvalidInput (formatRegionCode (Val r)) \<longleftrightarrow>
     \<not> (length (toUpperCase (trim r)) = 2 \<and> (\<forall>n \<in> set (toUpperCase (trim r)). 65 \<le> n \<and> n \<le> 90))"
proof (cases "r = []")
  case True
  have "trim [] = []" by (simp add: trim_def)
  with True show ?thesis by (simp add: formatRegionCode_def toUpperCase_def)
next
  case False
  then show ?thesis
    by (auto simp: formatRegionCode_def Let_def regionPattern_test)
qed

lemma formatRegionCode_Inr_iff:
  "formatRegionCode (Val r) = Inr y \<longleftrightarrow>
     length (toUpperCase (trim r)) = 2 \<and> (\<forall>n \<in> set (toUpperCase (trim r)). 65 \<le> n \<and> n \<le> 90)
     \<and> map of_char y = toUpperCase (trim r)"
proof -
  let ?u = "toUpperCase (trim r)"
  have conv: "y = map char_of ?u \<longleftrightarrow> map of_char y = ?u" if "\<forall>n \<in> set ?u. 65 \<le> n \<and> n \<le> 90"
  proof
    assume "y = map char_of ?u"
    then have "map of_char y = map (\<lambda>n. n mod 256) ?u" by (simp add: comp_def)
    also have "\<dots> = map (\<lambda>n. n) ?u" using that by (intro map_cong) auto
    finally show "map of_char y = ?u" by simp
  next
    assume a: "map of_char y = ?u"
    have "map char_of (map (of_char :: char \<Rightarrow> nat) y) = y" by (simp add: comp_def)
    then show "y = map char_of ?u" by (simp only: a)
  qed
  show ?thesis
  proof (cases "failsInvalidInput (formatRegionCode (Val r))")
    case True
    then have "formatRegionCode (Val r) \<noteq> Inr y" by auto
    with True show ?thesis unfolding formatRegionCode_fails_iff by blast
  next
    case False
    then have ok: "length ?u = 2" "\<forall>n \<in> set ?u. 65 \<le> n \<and> n \<le> 90"
      unfolding formatRegionCode_fails_iff by auto
    then have u: "?u \<noteq> []" by auto
    then have "trim r \<noteq> []" by (auto simp: toUpperCase_def)
    then have "r \<noteq> []" by (auto simp: trim_def)
    with ok u have "formatRegionCode (Val r) = Inr (map char_of ?u)"
      by (simp add: formatRegionCode_def Let_def regionPattern_test)
    with ok conv show ?thesis by auto
  qed
qed


text \<open>
  Claim C7, as amended. \<open>formatRegionCode\<close> succeeds exactly when the trimmed and then
  upper-cased input has exactly two code units, each of them in A..Z, and its result is
  that upper-cased string. It fails with InvalidInput when the trimmed and upper-cased
  input has one code unit, or three or more; when the trimmed input has three code
  units or more; when the input holds a digit; when it is blank; and when it is
  \<^verbatim>\<open>null\<close> or \<^verbatim>\<open>undefined\<close>. The lengths that decide are those of the upper-cased
  string: an input of one code unit is accepted when upper-casing makes two letters of
  it (see the next theorem).
\<close>

theorem formatRegionCode_boundary:
  "(formatRegionCode (Val r) = Inr y \<longleftrightarrow>
      length (toUpperCase (trim r)) = 2
      \<and> (\<forall>n \<in> set (toUpperCase (trim r)). 65 \<le> n \<and> n \<le> 90)
      \<and> map of_char y = toUpperCase (trim r))
   \<and> (length (toUpperCase (trim r)) \<noteq> 2 \<longrightarrow> failsInvalidInput (formatRegionCode (Val r)))
   \<and> (3 \<le> length (trim r) \<longrightarrow> failsInvalidInput (formatRegionCode (Val r)))
   \<and> ((\<exists>c \<in> set r. isDigit c) \<longrightarrow> failsInvalidInput (formatRegionCode (Val r)))
   \<and> (trim r = [] \<longrightarrow> failsInvalidInput (formatRegionCode (Val r)))
   \<and> failsInvalidInput (formatRegionCode Null)
   \<and> failsInvalidInput (formatRegionCode Undefined)"
proof (intro conjI impI)
  show "formatRegionCode (Val r) = Inr y \<longleftrightarrow>
      length (toUpperCase (trim r)) = 2
      \<and> (\<forall>n \<in> set (toUpperCase (trim r)). 65 \<le> n \<and> n \<le> 90)
      \<and> map of_char y = toUpperCase (trim r)"
    by (rule formatRegionCode_Inr_iff)
next
  assume "length (toUpperCase (trim r)) \<noteq> 2"
  then show "failsInvalidInput (formatRegionCode (Val r))"
    by (simp add: formatRegionCode_fails_iff)
next
  assume "3 \<le> length (trim r)"
  then have "length (toUpperCase (trim r)) \<noteq> 2"
    using toUpperCase_length [of "trim r"] by simp
  then show "failsInvalidInput (formatRegionCode (Val r))"
    by (simp add: formatRegionCode_fails_iff)
next
  assume "\<exists>c \<in> set r. isDigit c"
  then obtain c where "c \<in> set (filter isDigit r)" by auto
  moreover have "filter isDigit (trim r) = filter isDigit r"
    by (rule filter_trim) (rule digit_not_space)
  ultimately have "c \<in> set (filter isDigit (trim r))" by simp
  then have "c \<in> set (trim r)" "isDigit c" by simp_all
  then obtain n where n: "n \<in> set (toUpperCase (trim r))" "n < 65"
    using toUpperCase_digit by blast
  have "\<not> (\<forall>n \<in> set (toUpperCase (trim r)). 65 \<le> n \<and> n \<le> 90)"
  proof
    assume "\<forall>n \<in> set (toUpperCase (trim r)). 65 \<le> n \<and> n \<le> 90"
    with n(1) have "65 \<le> n" by blast
    with n(2) show False by simp
  qed
  then show "failsInvalidInput (formatRegionCode (Val r))"
    by (simp add: formatRegionCode_fails_iff)
next
  assume "trim r = []"
  then show "failsInvalidInput (formatRegionCode (Val r))"
    by (simp add: formatRegionCode_fails_iff toUpperCase_def)
qed (simp_all add: formatRegionCode_def)

theorem formatRegionCode_boundary_witness:
  "formatRegionCode (Val ''us'') = Inr ''US''
   \<and> length (toUpperCase (trim ''u'')) \<noteq> 2 \<and> failsInvalidInput (formatRegionCode (Val ''u''))
   \<and> 3 \<le> length (trim '' usa '') \<and> failsInvalidInput (formatRegionCode (Val '' usa ''))
   \<and> (\<exists>c \<in> set '' u2 ''. isDigit c) \<and> failsInvalidInput (formatRegionCode (Val '' u2 ''))
   \<and> trim ''  '' = [] \<and> failsInvalidInput (formatRegionCode (Val ''  ''))"
proof -
  note b = formatRegionCode_boundary
  have u: "toUpperCase (trim ''us'') = [85, 83]" by code_simp
  have 1: "formatRegionCode (Val ''us'') = Inr ''US''"
    using b [of "''us''" "''US''", THEN conjunct1] by (simp add: u)
  have h2: "length (toUpperCase (trim ''u'')) \<noteq> 2" by code_simp
  have 2: "failsInvalidInput (formatRegionCode (Val ''u''))"
    by (rule b [of "''u''" "[]", THEN conjunct2, THEN conjunct1, THEN mp, OF h2])
  have h3: "3 \<le> length (trim '' usa '')" by code_simp
  have 3: "failsInvalidInput (formatRegionCode (Val '' usa ''))"
    by (rule b [of "'' usa ''" "[]", THEN conjunct2, THEN conjunct2, THEN conjunct1, THEN mp, OF h3])
  have "isDigit CHR ''2''" by (simp add: isDigit_def)
  then have h4: "\<exists>c \<in> set '' u2 ''. isDigit c" by simp
  have 4: "failsInvalidInput (formatRegionCode (Val '' u2 ''))"
    by (rule b [of "'' u2 ''" "[]", THEN conjunct2, THEN conjunct2, THEN conjunct2,
          THEN conjunct1, THEN mp, OF h4])
  have h5: "trim ''  '' = []" by code_simp
  have 5: "failsInvalidInput (formatRegionCode (Val ''  ''))"
    by (rule b [of "''  ''" "[]", THEN conjunct2, THEN conjunct2, THEN conjunct2,
          THEN conjunct2, THEN conjunct1, THEN mp, OF h5])
  show ?thesis
    by (intro conjI 1 h2 2 h3 3 h4 4 h5 5)
qed

text \<open>
  Claim C7 as stated fails for an input of one character: the length is checked after
  \<^verbatim>\<open>toUpperCase\<close>, which turns U+00DF (sharp s) into the two letters SS. (So it does
  the ligatures above U+00FF: U+FB01 becomes FI.)
\<close>

theorem formatRegionCode_sharp_s:
  "length [CHR 0xDF] = 1 \<and> trim [CHR 0xDF] = [CHR 0xDF]
   \<and> toUpperCase [CHR 0xDF] = [83, 83]
   \<and> formatRegionCode (Val [CHR 0xDF]) = Inr ''SS''"
  by code_simp

lemma region_normalized:
  assumes "formatRegionCode r = Inr y"
  shows "normalizedField y"
proof -
  from assms obtain x where r: "r = Val x"
    by (cases r) (auto simp: formatRegionCode_def)
  let ?u = "toUpperCase (trim x)"
  from assms have u: "length ?u = 2" "\<forall>n \<in> set ?u. 65 \<le> n \<and> n \<le> 90" "map of_char y = ?u"
    unfolding r formatRegionCode_Inr_iff by auto
  then have "length (map (of_char :: char \<Rightarrow> nat) y) = 2" by simp
  then have ne: "y \<noteq> []" by (cases y) simp_all
  have "\<not> isWhiteSpace c" if "c \<in> set y" for c
  proof -
    from that have "(of_char c :: nat) \<in> set (map of_char y)" by simp
    then have "65 \<le> (of_char c :: nat) \<and> (of_char c :: nat) \<le> 90" using u by simp
    then show ?thesis by (auto simp: isWhiteSpace_def)
  qed
  then show ?thesis using ne by (simp add: normalizedField_def)
qed

section \<open>Splitting\<close>

lemma split_nonempty: "split sep s \<noteq> []"
  by (induction s) (auto split: list.splits)

lemma split_single: "split sep s = [p] \<longleftrightarrow> s = p \<and> sep \<notin> set p"
proof (induction s arbitrary: p)
  case Nil
  then show ?case by auto
next
  case (Cons c s)
  show ?case
  proof (cases "c = sep")
    case True
    then show ?thesis by (auto simp: split_nonempty)
  next
    case False
    obtain q qs where q: "split sep s = q # qs"
      using split_nonempty [of sep s] by (cases "split sep s") auto
    show ?thesis
    proof (cases p)
      case Nil
      then show ?thesis using False q by simp
    next
      case (Cons a p')
      then show ?thesis using False q Cons.IH [of p'] by auto
    qed
  qed
qed

lemma split_two:
  "split sep s = [u, d] \<longleftrightarrow> s = u @ sep # d \<and> sep \<notin> set u \<and> sep \<notin> set d"
proof (induction s arbitrary: u)
  case Nil
  then show ?case by simp
next
  case (Cons c s)
  show ?case
  proof (cases "c = sep")
    case True
    show ?thesis
    proof (cases u)
      case Nil
      then show ?thesis using True by (simp add: split_single)
    next
      case (Cons a u')
      then show ?thesis using True by auto
    qed
  next
    case False
    obtain q qs where q: "split sep s = q # qs"
      using split_nonempty [of sep s] by (cases "split sep s") auto
    show ?thesis
    proof (cases u)
      case Nil
      then show ?thesis using False q by simp
    next
      case (Cons a u')
      then show ?thesis using False q Cons.IH [of u'] by auto
    qed
  qed
qed

lemma length_two: "length xs = 2 \<longleftrightarrow> (\<exists>a b. xs = [a, b])"
  by (auto simp: length_Suc_conv numeral_2_eq_2)


section \<open>Email addresses: the shape of the result\<close>

lemma formatEmailAddress_split:
  assumes "trim a \<noteq> []" "CHR '' '' \<notin> set (trim a)"
    and "split CHR ''@'' (toLowerCase (trim a)) = [u, d]"
  shows "formatEmailAddress (Val a) =
     (if u = [] then Inl (InvalidInput ''Email address without the domain is empty'')
      else if d = [] then Inl (InvalidInput ''Domain of email address is empty'')
      else if (if d = ''gmail.com'' \<or> d = ''googlemail.com''
               then filter (\<lambda>c. c \<noteq> CHR ''.'') u else u) = []
      then Inl (InvalidInput ''Email address without the domain name is empty after normalization'')
      else Inr ((if d = ''gmail.com'' \<or> d = ''googlemail.com''
                 then filter (\<lambda>c. c \<noteq> CHR ''.'') u else u) @ ''@'' @ d))"
proof -
  from assms(1) have "a \<noteq> []" by (auto simp: trim_def)
  then show ?thesis
    using assms by (simp add: formatEmailAddress_def Let_def stripClass_def)
qed

lemma formatEmailAddress_InrD:
  assumes "formatEmailAddress (Val a) = Inr y"
  shows "trim a \<noteq> []" "CHR '' '' \<notin> set (trim a)"
    "\<exists>u d. split CHR ''@'' (toLowerCase (trim a)) = [u, d]"
proof -
  from assms show "trim a \<noteq> []"
    by (simp add: formatEmailAddress_def Let_def split: if_splits)
  from assms show "CHR '' '' \<notin> set (trim a)"
    by (simp add: formatEmailAddress_def Let_def split: if_splits)
  from assms have "length (split CHR ''@'' (toLowerCase (trim a))) = 2"
    by (simp add: formatEmailAddress_def Let_def split: if_splits)
  then show "\<exists>u d. split CHR ''@'' (toLowerCase (trim a)) = [u, d]"
    by (simp only: length_two)
qed

lemma fails_or_returns: "failsInvalidInput x \<longleftrightarrow> (\<forall>v. x \<noteq> Inr v)"
  by (cases x rule: failsInvalidInput.cases) auto

lemma formatEmailAddress_Inr_iff:
  "formatEmailAddress (Val a) = Inr y \<longleftrightarrow>
     trim a \<noteq> [] \<and> CHR '' '' \<notin> set (trim a) \<and>
     (\<exists>username domain.
        toLowerCase (trim a) = username @ ''@'' @ domain
        \<and> CHR ''@'' \<notin> set username \<and> CHR ''@'' \<notin> set domain
        \<and> username \<noteq> [] \<and> domain \<noteq> []
        \<and> (if domain = ''gmail.com'' \<or> domain = ''googlemail.com''
            then filter (\<lambda>c. c \<noteq> CHR ''.'') username \<noteq> []
                 \<and> y = filter (\<lambda>c. c \<noteq> CHR ''.'') username @ ''@'' @ domain
            else y = username @ ''@'' @ domain))"
  (is "?L \<longleftrightarrow> ?R")
proof
  assume l: ?L
  note d = formatEmailAddress_InrD [OF l]
  from d(3) obtain u dm where s: "split CHR ''@'' (toLowerCase (trim a)) = [u, dm]" by blast
  then have dec: "toLowerCase (trim a) = u @ ''@'' @ dm" "CHR ''@'' \<notin> set u" "CHR ''@'' \<notin> set dm"
    by (simp_all add: split_two)
  from l have "u \<noteq> [] \<and> dm \<noteq> []
      \<and> (if dm = ''gmail.com'' \<or> dm = ''googlemail.com''
            then filter (\<lambda>c. c \<noteq> CHR ''.'') u \<noteq> []
                 \<and> y = filter (\<lambda>c. c \<noteq> CHR ''.'') u @ ''@'' @ dm
            else y = u @ ''@'' @ dm)"
    unfolding formatEmailAddress_split [OF d(1,2) s] by (auto split: if_splits)
  with d(1,2) dec show ?R by blast
next
  assume r: ?R
  then obtain u dm where dec: "toLowerCase (trim a) = u @ ''@'' @ dm"
      "CHR ''@'' \<notin> set u" "CHR ''@'' \<notin> set dm" "u \<noteq> []" "dm \<noteq> []"
    and y: "if dm = ''gmail.com'' \<or> dm = ''googlemail.com''
            then filter (\<lambda>c. c \<noteq> CHR ''.'') u \<noteq> []
                 \<and> y = filter (\<lambda>c. c \<noteq> CHR ''.'') u @ ''@'' @ dm
            else y = u @ ''@'' @ dm"
    by blast
  from dec(1-3) have s: "split CHR ''@'' (toLowerCase (trim a)) = [u, dm]"
    by (simp add: split_two)
  from r have t: "trim a \<noteq> []" "CHR '' '' \<notin> set (trim a)" by blast+
  show ?L
    unfolding formatEmailAddress_split [OF t s] using dec(4,5) y by (auto split: if_splits)
qed

text \<open>
  Claim C5. \<open>formatEmailAddress\<close> returns \<open>y\<close> exactly when the trimmed input is not
  empty and holds no space, its lower-cased form splits at a single \<open>@\<close> into a
  non-empty user name and a non-empty domain, and \<open>y\<close> is the user name, the \<open>@\<close> and
  the domain, where for the domains \<open>gmail.com\<close> and \<open>googlemail.com\<close> (and for no other)
  every \<open>.\<close> is removed from the user name, which must stay non-empty. In every other
  case the call fails with InvalidInput.
\<close>

theorem formatEmailAddress_shape:
  "(formatEmailAddress (Val a) = Inr y \<longleftrightarrow>
     trim a \<noteq> [] \<and> CHR '' '' \<notin> set (trim a) \<and>
     (\<exists>username domain.
        toLowerCase (trim a) = username @ ''@'' @ domain
        \<and> CHR ''@'' \<notin> set username \<and> CHR ''@'' \<notin> set domain
        \<and> username \<noteq> [] \<and> domain \<noteq> []
        \<and> (if domain = ''gmail.com'' \<or> domain = ''googlemail.com''
            then filter (\<lambda>c. c \<noteq> CHR ''.'') username \<noteq> []
                 \<and> y = filter (\<lambda>c. c \<noteq> CHR ''.'') username @ ''@'' @ domain
            else y = username @ ''@'' @ domain)))
   \<and> (failsInvalidInput (formatEmailAddress (Val a))
        \<longleftrightarrow> (\<forall>v. formatEmailAddress (Val a) \<noteq> Inr v))"
  by (rule conjI [OF formatEmailAddress_Inr_iff fails_or_returns])

theorem formatEmailAddress_shape_witness:
  "formatEmailAddress (Val ''j.e.f..ferson.Loves.hiking@gmail.com'') = Inr ''jeffersonloveshiking@gmail.com''
   \<and> formatEmailAddress (Val ''a.b@example.com'') = Inr ''a.b@example.com''"
proof -
  have t1: "trim ''j.e.f..ferson.Loves.hiking@gmail.com'' = ''j.e.f..ferson.Loves.hiking@gmail.com''"
    by code_simp
  have l1: "toLowerCase ''j.e.f..ferson.Loves.hiking@gmail.com'' = ''j.e.f..ferson.loves.hiking'' @ ''@'' @ ''gmail.com''"
    by code_simp
  have f1: "filter (\<lambda>c. c \<noteq> CHR ''.'') ''j.e.f..ferson.loves.hiking'' = ''jeffersonloveshiking''"
    by simp
  have 1: "formatEmailAddress (Val ''j.e.f..ferson.Loves.hiking@gmail.com'') = Inr ''jeffersonloveshiking@gmail.com''"
    unfolding formatEmailAddress_shape [THEN conjunct1] t1 l1
    by (intro conjI exI [of _ "''j.e.f..ferson.loves.hiking''"] exI [of _ "''gmail.com''"])
       (simp_all add: f1)
  have t2: "trim ''a.b@example.com'' = ''a.b@example.com''" by code_simp
  have l2: "toLowerCase ''a.b@example.com'' = ''a.b'' @ ''@'' @ ''example.com''" by code_simp
  have 2: "formatEmailAddress (Val ''a.b@example.com'') = Inr ''a.b@example.com''"
    unfolding formatEmailAddress_shape [THEN conjunct1] t2 l2
    by (intro conjI exI [of _ "''a.b''"] exI [of _ "''example.com''"]) simp_all
  from 1 2 show ?thesis by (rule conjI)
qed


section \<open>The results of the normalizers\<close>

lemma family_result:
  assumes "formatFamilyName f = Inr y"
  shows "y \<noteq> [] \<and> \<not> isWhiteSpace (hd y)"
proof -
  from assms obtain x where "f = Val x"
    by (cases f) (auto simp: formatFamilyName_def)
  with assms family_prefix(1,2) show ?thesis by blast
qed

lemma email_result:
  assumes "formatEmailAddress (Val a) = Inr y"
  shows "y \<noteq> []" "\<not> isWhiteSpace (last y)"
    and "(\<forall>c \<in> set (trim a). \<not> isWhiteSpace c) \<Longrightarrow> normalizedField y"
proof -
  let ?l = "toLowerCase (trim a)"
  from assms formatEmailAddress_Inr_iff [of a y]
  obtain u d where t: "trim a \<noteq> []" and dec: "?l = u @ ''@'' @ d" "d \<noteq> []"
    and y: "y = filter (\<lambda>c. c \<noteq> CHR ''.'') u @ ''@'' @ d \<or> y = u @ ''@'' @ d"
    by (auto split: if_splits)
  from y dec(2) show ne: "y \<noteq> []" by auto
  from y dec(2) have "last y = last d" by auto
  also from dec have "\<dots> = last ?l" by simp
  also from t have "\<dots> = lowerChar (last (trim a))"
    by (simp add: toLowerCase_def last_map)
  finally show "\<not> isWhiteSpace (last y)"
    using trim_hd_last(2) [OF t] by (simp add: lowerChar_space)
  from y dec(1) have sub: "set y \<subseteq> set ?l" by auto
  show "normalizedField y" if "\<forall>c \<in> set (trim a). \<not> isWhiteSpace c"
  proof -
    from that have "\<forall>c \<in> set ?l. \<not> isWhiteSpace c"
      by (simp add: toLowerCase_def lowerChar_space)
    with sub have "\<forall>c \<in> set y. \<not> isWhiteSpace c" by blast
    with ne show ?thesis by (simp add: normalizedField_def)
  qed
qed

lemma email_result_arg:
  assumes "formatEmailAddress e = Inr y"
  shows "y \<noteq> [] \<and> \<not> isWhiteSpace (last y)"
proof -
  from assms obtain a where "e = Val a"
    by (cases e) (auto simp: formatEmailAddress_def)
  with assms email_result(1,2) show ?thesis by blast
qed

text \<open>
  What the results of the normalizers do satisfy. A successful result of
  \<open>formatPhoneNumber\<close>, \<open>formatGivenName\<close>, \<open>formatRegionCode\<close> or \<open>formatPostalCode\<close> is a
  normalized field. A successful result of \<open>formatFamilyName\<close> is non-empty and has no
  leading whitespace; one of \<open>formatEmailAddress\<close> is non-empty and has no trailing
  whitespace, and is a normalized field when the trimmed input holds no whitespace.
\<close>

lemma normalizer_results:
  "(formatPhoneNumber p = Inr y1 \<longrightarrow> normalizedField y1)
   \<and> (formatGivenName g = Inr y2 \<longrightarrow> normalizedField y2)
   \<and> (formatRegionCode r = Inr y3 \<longrightarrow> normalizedField y3)
   \<and> (formatPostalCode z = Inr y4 \<longrightarrow> normalizedField y4)
   \<and> (formatFamilyName f = Inr y5 \<longrightarrow> y5 \<noteq> [] \<and> \<not> isWhiteSpace (hd y5))
   \<and> (formatEmailAddress e = Inr y6 \<longrightarrow> y6 \<noteq> [] \<and> \<not> isWhiteSpace (last y6))
   \<and> (formatEmailAddress (Val a) = Inr y7 \<and> (\<forall>c \<in> set (trim a). \<not> isWhiteSpace c)
        \<longrightarrow> normalizedField y7)"
proof (intro conjI impI)
  show "normalizedField y1" if "formatPhoneNumber p = Inr y1"
    using that by (rule phone_normalized)
  show "normalizedField y2" if "formatGivenName g = Inr y2"
    using that by (rule given_normalized)
  show "normalizedField y3" if "formatRegionCode r = Inr y3"
    using that by (rule region_normalized)
  show "normalizedField y4" if "formatPostalCode z = Inr y4"
    using that by (rule postal_normalized)
  show "y5 \<noteq> []" "\<not> isWhiteSpace (hd y5)" if "formatFamilyName f = Inr y5"
    using family_result [OF that] by simp_all
  show "y6 \<noteq> []" "\<not> isWhiteSpace (last y6)" if "formatEmailAddress e = Inr y6"
    using email_result_arg [OF that] by simp_all
  show "normalizedField y7"
    if "formatEmailAddress (Val a) = Inr y7 \<and> (\<forall>c \<in> set (trim a). \<not> isWhiteSpace c)"
    using that email_result(3) by blast
qed

text \<open>
  Claim C3. The code breaks it in two places. \<open>formatFamilyName\<close> leaves the whitespace
  that stands before a comma-led suffix at the end of its result (the defect of claim
  C2). \<open>formatEmailAddress\<close> looks for U+0020 only (the defect of claim C4), so a TAB can
  stay behind the dots removed from a gmail user name and lead the result.
\<close>

theorem formatFamilyName_trailing_space:
  "formatFamilyName (Val ''Quinn , Jr.'') = Inr ''quinn ''
   \<and> isWhiteSpace (last ''quinn '') \<and> \<not> normalizedField ''quinn ''
   \<and> formatEmailAddress (Val ([CHR ''.'', CHR 0x09] @ ''@gmail.com''))
       = Inr (CHR 0x09 # ''@gmail.com'')
   \<and> isWhiteSpace (hd (CHR 0x09 # ''@gmail.com''))
   \<and> \<not> normalizedField (CHR 0x09 # ''@gmail.com'')"
  by code_simp

section \<open>Facts about the encoders\<close>

lemma indexOf_nth: "distinct xs \<Longrightarrow> n < length xs \<Longrightarrow> indexOf (xs ! n) xs = Some n"
proof (induction xs arbitrary: n)
  case Nil
  then show ?case by simp
next
  case (Cons x xs)
  show ?case
  proof (cases n)
    case 0
    then show ?thesis by simp
  next
    case (Suc m)
    with Cons.prems have "xs ! m \<in> set xs" "x \<notin> set xs" by auto
    then have "xs ! m \<noteq> x" by auto
    with Suc Cons show ?thesis by auto
  qed
qed


lemma byte_eq_bits:
  fixes a b :: byte
  assumes "bit a 0 = bit b 0" "bit a 1 = bit b 1" "bit a 2 = bit b 2" "bit a 3 = bit b 3"
    "bit a 4 = bit b 4" "bit a 5 = bit b 5" "bit a 6 = bit b 6" "bit a 7 = bit b 7"
  shows "a = b"
proof (rule bit_word_eqI)
  fix n assume "n < LENGTH(8)"
  then have "n \<in> {0, 1, 2, 3, 4, 5, 6, 7}" by auto
  then show "bit a n \<longleftrightarrow> bit b n"
    using assms by (elim insertE emptyE) simp_all
qed

lemma mask3: "(a :: byte) AND 3 = take_bit 2 a"
  by (simp add: take_bit_eq_mask mask_eq_exp_minus_1)

lemma mask15: "(a :: byte) AND 15 = take_bit 4 a"
  by (simp add: take_bit_eq_mask mask_eq_exp_minus_1)

lemma mask63: "(a :: byte) AND 63 = take_bit 6 a"
  by (simp add: take_bit_eq_mask mask_eq_exp_minus_1)

lemma sextet_less: "take_bit 6 (x :: byte) = x \<Longrightarrow> unat x < 64"
proof -
  assume "take_bit 6 x = x"
  then have "unat x = unat (take_bit 6 x)" by simp
  also have "\<dots> = take_bit 6 (unat x)" by (rule unsigned_take_bit_eq)
  also have "\<dots> < 2 ^ 6" by (rule take_bit_nat_less_exp)
  finally show ?thesis by simp
qed

lemma sextet1: "take_bit 6 (drop_bit 2 (a :: byte)) = drop_bit 2 a"
  by (rule byte_eq_bits) (auto simp: bit_simps dest: bit_imp_le_length)

lemma sextet2:
  "take_bit 6 (push_bit 4 ((a :: byte) AND 3) OR drop_bit 4 (b :: byte))
     = push_bit 4 (a AND 3) OR drop_bit 4 b"
  unfolding mask3 by (rule byte_eq_bits) (auto simp: bit_simps dest: bit_imp_le_length)

lemma sextet3:
  "take_bit 6 (push_bit 2 ((b :: byte) AND 15) OR drop_bit 6 (c :: byte))
     = push_bit 2 (b AND 15) OR drop_bit 6 c"
  unfolding mask15 by (rule byte_eq_bits) (auto simp: bit_simps dest: bit_imp_le_length)

lemma sextet4: "take_bit 6 ((c :: byte) AND 63) = c AND 63"
  by (simp add: mask63)

lemma octet1:
  "push_bit 2 (drop_bit 2 (a :: byte)) OR drop_bit 4 (push_bit 4 (a AND 3) OR drop_bit 4 (b :: byte)) = a"
  unfolding mask3 by (rule byte_eq_bits) (simp_all add: bit_simps)

lemma octet2:
  "push_bit 4 (push_bit 4 ((a :: byte) AND 3) OR drop_bit 4 (b :: byte))
     OR drop_bit 2 (push_bit 2 (b AND 15) OR drop_bit 6 (c :: byte)) = b"
  unfolding mask3 mask15 by (rule byte_eq_bits) (simp_all add: bit_simps)

lemma octet3:
  "push_bit 6 (push_bit 2 ((b :: byte) AND 15) OR drop_bit 6 (c :: byte)) OR (c AND 63) = c"
  unfolding mask15 mask63 by (rule byte_eq_bits) (simp_all add: bit_simps)

lemma nibbles: "push_bit 4 (drop_bit 4 (b :: byte)) OR (b AND 15) = b"
  unfolding mask15 by (rule byte_eq_bits) (simp_all add: bit_simps)

lemma nibble_less: "unat (drop_bit 4 (b :: byte)) < 16" "unat (b AND 15) < 16"
proof -
  have "unat (drop_bit 4 b) = drop_bit 4 (unat b)" by (rule unat_drop_bit_eq)
  also have "\<dots> = unat b div 2 ^ 4" by (rule drop_bit_eq_div)
  finally have "unat (drop_bit 4 b) = unat b div 2 ^ 4" .
  moreover have "unat b < 2 ^ 8" using unsigned_less [of b] by simp
  ultimately show "unat (drop_bit 4 b) < 16" by simp
  have "unat (b AND 15) = unat (take_bit 4 b)" by (simp only: mask15)
  also have "\<dots> = take_bit 4 (unat b)" by (rule unsigned_take_bit_eq)
  also have "\<dots> < 2 ^ 4" by (rule take_bit_nat_less_exp)
  finally show "unat (b AND 15) < 16" by simp
qed


section \<open>Round trips\<close>

lemma hexDigits_nth:
  assumes "n < 16"
  shows "hexValue (hexDigits ! n) = Some (of_nat n)" "hexDigits ! n \<in> set hexDigits"
proof -
  have d: "distinct hexDigits" "length hexDigits = 16" by (simp_all add: hexDigits_def)
  with assms have "indexOf (hexDigits ! n) hexDigits = Some n" by (simp add: indexOf_nth)
  then show "hexValue (hexDigits ! n) = Some (of_nat n)"
    by (simp add: hexValue_def hexDigits_def)
  from assms d show "hexDigits ! n \<in> set hexDigits" by simp
qed

lemma hexDecode_toStringHex: "hexDecode (toStringHex bs) = Some bs"
proof (induction bs)
  case Nil
  then show ?case by (simp add: toStringHex_def)
next
  case (Cons b bs)
  have "toStringHex (b # bs)
      = hexDigits ! unat (drop_bit 4 b) # hexDigits ! unat (b AND 15) # toStringHex bs"
    by (simp add: toStringHex_def)
  then show ?case
    using Cons.IH nibbles [of b]
    by (simp add: hexDigits_nth(1) nibble_less)
qed

lemma length_toStringHex: "length (toStringHex bs) = 2 * length bs"
  by (induction bs) (simp_all add: toStringHex_def)

lemma set_toStringHex: "set (toStringHex bs) \<subseteq> set hexDigits"
  by (induction bs) (simp_all add: toStringHex_def hexDigits_nth(2) nibble_less)

lemma b64_sextet:
  assumes "take_bit 6 x = x"
  shows "base64Value (b64 x) = Some x" "b64 x \<in> set base64Chars" "b64 x \<noteq> CHR ''=''"
proof -
  have d: "distinct base64Chars" "length base64Chars = 64" by (simp_all add: base64Chars_def)
  from assms have l: "unat x < 64" by (rule sextet_less)
  with d have "indexOf (base64Chars ! unat x) base64Chars = Some (unat x)"
    by (simp add: indexOf_nth)
  then show "base64Value (b64 x) = Some x" by (simp add: base64Value_def b64_def)
  from l d show m: "b64 x \<in> set base64Chars" by (simp add: b64_def)
  have "CHR ''='' \<notin> set base64Chars" by (simp add: base64Chars_def)
  with m show "b64 x \<noteq> CHR ''=''" by auto
qed

lemmas b64_1 = b64_sextet [OF sextet1]
lemmas b64_2 = b64_sextet [OF sextet2]
lemmas b64_3 = b64_sextet [OF sextet3]
lemmas b64_4 = b64_sextet [OF sextet4]

lemma base64Decode_group:
  assumes "base64Value c1 = Some s1" "base64Value c2 = Some s2" "base64Value c3 = Some s3"
    "base64Value c4 = Some s4" "c3 \<noteq> CHR ''=''" "c4 \<noteq> CHR ''=''"
    "base64Decode t = Some bs"
  shows "base64Decode (c1 # c2 # c3 # c4 # t)
    = Some ((push_bit 2 s1 OR drop_bit 4 s2) # (push_bit 4 s2 OR drop_bit 2 s3)
            # (push_bit 6 s3 OR s4) # bs)"
  using assms by simp

lemma base64Decode_pad1:
  assumes "base64Value c1 = Some s1" "base64Value c2 = Some s2" "base64Value c3 = Some s3"
    "c3 \<noteq> CHR ''=''"
  shows "base64Decode [c1, c2, c3, CHR ''='']
    = Some [push_bit 2 s1 OR drop_bit 4 s2, push_bit 4 s2 OR drop_bit 2 s3]"
  using assms by simp

lemma base64Decode_pad2:
  assumes "base64Value c1 = Some s1" "base64Value c2 = Some s2"
  shows "base64Decode [c1, c2, CHR ''='', CHR ''=''] = Some [push_bit 2 s1 OR drop_bit 4 s2]"
  using assms by simp

lemma base64Decode_toStringBase64: "base64Decode (toStringBase64 bs) = Some bs"
proof (induction bs rule: toStringBase64.induct)
  case (1 a b c rest)
  have "base64Decode (toStringBase64 (a # b # c # rest))
      = base64Decode (b64 (drop_bit 2 a) # b64 (push_bit 4 (a AND 3) OR drop_bit 4 b)
          # b64 (push_bit 2 (b AND 15) OR drop_bit 6 c) # b64 (c AND 63) # toStringBase64 rest)"
    by (simp only: toStringBase64.simps append.simps)
  also have "\<dots> = Some (a # b # c # rest)"
    by (simp only: base64Decode_group [OF b64_1(1) b64_2(1) b64_3(1) b64_4(1) b64_3(3) b64_4(3) 1]
        octet1 octet2 octet3)
  finally show ?case .
next
  case (2 a b)
  have z: "push_bit 2 (b AND 15) = push_bit 2 (b AND 15) OR drop_bit 6 (0 :: byte)" by simp
  have "base64Decode (toStringBase64 [a, b])
      = base64Decode [b64 (drop_bit 2 a), b64 (push_bit 4 (a AND 3) OR drop_bit 4 b),
          b64 (push_bit 2 (b AND 15) OR drop_bit 6 0), CHR ''='']"
    by (simp only: toStringBase64.simps z [symmetric])
  also have "\<dots> = Some [a, b]"
    by (simp only: base64Decode_pad1 [OF b64_1(1) b64_2(1) b64_3(1) b64_3(3)] octet1 octet2)
  finally show ?case .
next
  case (3 a)
  have z: "push_bit 4 (a AND 3) = push_bit 4 (a AND 3) OR drop_bit 4 (0 :: byte)" by simp
  have "base64Decode (toStringBase64 [a])
      = base64Decode [b64 (drop_bit 2 a), b64 (push_bit 4 (a AND 3) OR drop_bit 4 0),
          CHR ''='', CHR ''='']"
    by (simp only: toStringBase64.simps z [symmetric])
  also have "\<dots> = Some [a]"
    by (simp only: base64Decode_pad2 [OF b64_1(1) b64_2(1)] octet1)
  finally show ?case .
next
  case 4
  then show ?case by simp
qed

lemma length_toStringBase64: "length (toStringBase64 bs) = 4 * ((length bs + 2) div 3)"
  by (induction bs rule: toStringBase64.induct) (simp_all, presburger)

lemma toStringBase64_padding:
  "\<exists>core. toStringBase64 bs = core @ replicate ((3 - length bs mod 3) mod 3) CHR ''=''
      \<and> set core \<subseteq> set base64Chars"
proof (induction bs rule: toStringBase64.induct)
  case (1 a b c rest)
  then obtain core where c: "toStringBase64 rest = core @ replicate ((3 - length rest mod 3) mod 3) CHR ''=''"
    "set core \<subseteq> set base64Chars" by blast
  let ?g = "[b64 (drop_bit 2 a), b64 (push_bit 4 (a AND 3) OR drop_bit 4 b),
      b64 (push_bit 2 (b AND 15) OR drop_bit 6 c), b64 (c AND 63)]"
  have "toStringBase64 (a # b # c # rest)
      = (?g @ core) @ replicate ((3 - length (a # b # c # rest) mod 3) mod 3) CHR ''=''"
    by (simp only: toStringBase64.simps c(1) append_assoc) simp
  moreover have "set (?g @ core) \<subseteq> set base64Chars"
    using c(2) b64_1(2) b64_2(2) b64_3(2) b64_4(2) by (simp del: push_bit_and)
  ultimately show ?case by blast
next
  case (2 a b)
  have z: "push_bit 2 (b AND 15) = push_bit 2 (b AND 15) OR drop_bit 6 (0 :: byte)" by simp
  let ?g = "[b64 (drop_bit 2 a), b64 (push_bit 4 (a AND 3) OR drop_bit 4 b),
      b64 (push_bit 2 (b AND 15) OR drop_bit 6 0)]"
  have "toStringBase64 [a, b] = ?g @ replicate ((3 - length [a, b] mod 3) mod 3) CHR ''=''"
    by (simp only: toStringBase64.simps z [symmetric]) simp
  moreover have "set ?g \<subseteq> set base64Chars"
    using b64_1(2) b64_2(2) b64_3(2) by (simp only: list.set) blast
  ultimately show ?case by blast
next
  case (3 a)
  have z: "push_bit 4 (a AND 3) = push_bit 4 (a AND 3) OR drop_bit 4 (0 :: byte)" by simp
  let ?g = "[b64 (drop_bit 2 a), b64 (push_bit 4 (a AND 3) OR drop_bit 4 0)]"
  have "toStringBase64 [a] = ?g @ replicate ((3 - length [a] mod 3) mod 3) CHR ''=''"
    by (simp only: toStringBase64.simps z [symmetric]) (simp add: numeral_2_eq_2)
  moreover have "set ?g \<subseteq> set base64Chars"
    using b64_1(2) b64_2(2) by (simp only: list.set) blast
  ultimately show ?case by blast
next
  case 4
  then show ?case by simp
qed


text \<open>
  Claim C8. For a byte sequence that is not empty, \<open>hexEncode\<close> returns two characters
  per byte, all of them among \<open>0123456789abcdef\<close>, and hexadecimal decoding gives the
  bytes back; \<open>base64Encode\<close> returns four characters per started group of three bytes,
  all of the base64 alphabet but for the \<open>=\<close> padding that ends the last group, and
  base64 decoding gives the bytes back.
\<close>

theorem encoders_round_trip:
  "b \<noteq> [] \<Longrightarrow>
     (\<exists>h. hexEncode (Val b) = Inr h \<and> length h = 2 * length b
          \<and> set h \<subseteq> set ''0123456789abcdef'' \<and> hexDecode h = Some b)
   \<and> (\<exists>t core. base64Encode (Val b) = Inr t
          \<and> t = core @ replicate ((3 - length b mod 3) mod 3) CHR ''=''
          \<and> set core \<subseteq> set base64Chars
          \<and> length t = 4 * ((length b + 2) div 3)
          \<and> base64Decode t = Some b)"
proof (rule conjI)
  assume ne: "b \<noteq> []"
  then have "hexEncode (Val b) = Inr (toStringHex b)" by (simp add: hexEncode_def)
  moreover have "set (toStringHex b) \<subseteq> set ''0123456789abcdef''"
    using set_toStringHex [of b] by (simp only: hexDigits_def)
  ultimately show "\<exists>h. hexEncode (Val b) = Inr h \<and> length h = 2 * length b
          \<and> set h \<subseteq> set ''0123456789abcdef'' \<and> hexDecode h = Some b"
    using length_toStringHex hexDecode_toStringHex by blast
  from ne have "base64Encode (Val b) = Inr (toStringBase64 b)" by (simp add: base64Encode_def)
  then show "\<exists>t core. base64Encode (Val b) = Inr t
          \<and> t = core @ replicate ((3 - length b mod 3) mod 3) CHR ''=''
          \<and> set core \<subseteq> set base64Chars
          \<and> length t = 4 * ((length b + 2) div 3)
          \<and> base64Decode t = Some b"
    using toStringBase64_padding [of b] length_toStringBase64 [of b]
      base64Decode_toStringBase64 [of b] by metis
qed

theorem encoders_round_trip_witness:
  "[0x39, 0x39, 0x39, 0x5f, 0x58, 0x59, 0x5a] \<noteq> ([] :: byte list)
   \<and> hexEncode (Val [0x39, 0x39, 0x39, 0x5f, 0x58, 0x59, 0x5a]) = Inr ''3939395f58595a''
   \<and> hexDecode ''3939395f58595a'' = Some [0x39, 0x39, 0x39, 0x5f, 0x58, 0x59, 0x5a]
   \<and> base64Encode (Val [0x39, 0x39, 0x39, 0x5f, 0x58, 0x59, 0x5a]) = Inr ''OTk5X1hZWg==''
   \<and> base64Decode ''OTk5X1hZWg=='' = Some [0x39, 0x39, 0x39, 0x5f, 0x58, 0x59, 0x5a]"
proof -
  let ?b = "[0x39, 0x39, 0x39, 0x5f, 0x58, 0x59, 0x5a] :: byte list"
  have ne: "?b \<noteq> []" by simp
  have h: "hexEncode (Val ?b) = Inr ''3939395f58595a''" by code_simp
  have t: "base64Encode (Val ?b) = Inr ''OTk5X1hZWg==''" by code_simp
  from encoders_round_trip [OF ne] obtain h' t'
    where "hexEncode (Val ?b) = Inr h'" "hexDecode h' = Some ?b"
      "base64Encode (Val ?b) = Inr t'" "base64Decode t' = Some ?b"
    by blast
  with h t have "hexDecode ''3939395f58595a'' = Some ?b" "base64Decode ''OTk5X1hZWg=='' = Some ?b"
    by simp_all
  with ne h t show ?thesis by blast
qed

section \<open>The digest\<close>

lemma length_round256: "length (round256 s kw) = length s"
  by (cases "(s, kw)" rule: round256.cases) (simp_all add: Let_def)

lemma length_foldl_round256: "length (foldl round256 s kws) = length s"
  by (induction kws arbitrary: s) (simp_all add: length_round256)

lemma length_compress: "length (compress hs block) = length hs"
  by (simp add: compress_def length_foldl_round256)

lemma length_foldl_compress: "length (foldl compress hs bl) = length hs"
  by (induction bl arbitrary: hs) (simp_all add: length_compress)

lemma length_concat_bytes32: "length (concat (map bytes32 ws)) = 4 * length ws"
  by (induction ws) (simp_all add: bytes32_def)

lemma length_sha256: "length (sha256 m) = 32"
  by (simp add: sha256_def length_concat_bytes32 length_foldl_compress H256_def)


section \<open>Facts about the process operations\<close>

lemma hashString_ok: "trim n \<noteq> [] \<Longrightarrow> hashString (Val n) = Inr (sha256 (utf8 n))"
  by (simp add: hashString_def)

lemma sha256_nonempty: "sha256 m \<noteq> []"
  using length_sha256 [of m] by auto

lemma hashAndEncode_ok:
  assumes "trim n \<noteq> []"
  shows "hashAndEncode n HEX = Inr (toStringHex (sha256 (utf8 n)))"
    "hashAndEncode n BASE64 = Inr (toStringBase64 (sha256 (utf8 n)))"
    "encoding \<noteq> ''hex'' \<Longrightarrow> encoding \<noteq> ''base64'' \<Longrightarrow>
      hashAndEncode n encoding = Inl (InvalidInput (''Invalid encoding: '' @ encoding))"
  using assms
  by (simp_all add: hashAndEncode_def hashString_ok encode_def HEX_def BASE64_def
      hexEncode_def base64Encode_def sha256_nonempty)

lemma trim_nonempty_hd: "y \<noteq> [] \<Longrightarrow> \<not> isWhiteSpace (hd y) \<Longrightarrow> trim y \<noteq> []"
  by (cases y) (auto simp: trim_Nil_iff)

lemma trim_nonempty_last: "y \<noteq> [] \<Longrightarrow> \<not> isWhiteSpace (last y) \<Longrightarrow> trim y \<noteq> []"
  using last_in_set [of y] by (auto simp: trim_Nil_iff)

lemma email_hashable: "formatEmailAddress r = Inr y \<Longrightarrow> trim y \<noteq> []"
  using email_result_arg trim_nonempty_last by blast

lemma phone_hashable: "formatPhoneNumber r = Inr y \<Longrightarrow> trim y \<noteq> []"
  using phone_normalized trim_nonempty_hd by (auto simp: normalizedField_def)

lemma given_hashable: "formatGivenName r = Inr y \<Longrightarrow> trim y \<noteq> []"
  using given_normalized trim_nonempty_hd by (auto simp: normalizedField_def)

lemma family_hashable: "formatFamilyName r = Inr y \<Longrightarrow> trim y \<noteq> []"
  using family_result trim_nonempty_hd by blast

lemma lowerChar_space_char: "lowerChar c = CHR '' '' \<longleftrightarrow> c = CHR '' ''"
proof
  assume l: "lowerChar c = CHR '' ''"
  have "isWhiteSpace (CHR '' '')" by (simp add: isWhiteSpace_def)
  with l have w: "isWhiteSpace c" by (metis lowerChar_space)
  then have "lowerChar c = c" by (auto simp: lowerChar_def Let_def isWhiteSpace_def)
  with l show "c = CHR '' ''" by simp
next
  assume "c = CHR '' ''"
  then show "lowerChar c = CHR '' ''" by (simp add: lowerChar_def)
qed

lemma space_in_lower: "CHR '' '' \<in> set (toLowerCase s) \<longleftrightarrow> CHR '' '' \<in> set s"
proof
  assume "CHR '' '' \<in> set (toLowerCase s)"
  then obtain c where c: "c \<in> set s" "lowerChar c = CHR '' ''"
    by (auto simp: toLowerCase_def)
  then have "c = CHR '' ''" by (simp only: lowerChar_space_char)
  with c(1) show "CHR '' '' \<in> set s" by simp
next
  assume "CHR '' '' \<in> set s"
  moreover have "lowerChar (CHR '' '') = CHR '' ''" by (simp only: lowerChar_space_char)
  ultimately have "CHR '' '' \<in> lowerChar ` set s" by (metis image_eqI)
  then show "CHR '' '' \<in> set (toLowerCase s)" by (simp add: toLowerCase_def)
qed

lemma formatEmailAddress_variant:
  assumes "formatEmailAddress (Val a) = Inr y" "toLowerCase (trim b) = toLowerCase (trim a)"
  shows "formatEmailAddress (Val b) = Inr y"
proof -
  note s = formatEmailAddress_Inr_iff
  from assms(1) have ne: "trim a \<noteq> []" and sp: "CHR '' '' \<notin> set (trim a)"
    unfolding s by blast+
  from assms(2) have "length (trim b) = length (trim a)"
    by (metis length_map toLowerCase_def)
  with ne have "trim b \<noteq> []" by auto
  moreover from sp assms(2) have "CHR '' '' \<notin> set (trim b)"
    by (metis space_in_lower)
  ultimately show ?thesis
    using assms(1) unfolding s [of a] s [of b] assms(2) by blast
qed


text \<open>
  Claim C1. When \<open>formatEmailAddress\<close> accepts \<open>r\<close> and returns \<open>y\<close>,
  \<open>processEmailAddress\<close> returns the hexadecimal, respectively the base64, rendering of
  the SHA-256 digest of the UTF-8 bytes of \<open>y\<close>; so it does for the address
  \<open>ALEXZ@example.com\<close> with blanks around it, whose normal form is \<open>alexz@example.com\<close>;
  and two inputs that differ in case and in surrounding whitespace only, one of them
  accepted, give the same output under every encoding.
\<close>

theorem processEmailAddress_digest:
  "(formatEmailAddress r = Inr y \<longrightarrow>
      processEmailAddress r HEX = Inr (toStringHex (sha256 (utf8 y)))
      \<and> processEmailAddress r BASE64 = Inr (toStringBase64 (sha256 (utf8 y))))
   \<and> processEmailAddress (Val ''  ALEXZ@example.com   '') HEX
       = Inr (toStringHex (sha256 (utf8 ''alexz@example.com'')))
   \<and> (formatEmailAddress (Val a) = Inr y \<and> toLowerCase (trim b) = toLowerCase (trim a) \<longrightarrow>
        processEmailAddress (Val b) encoding = processEmailAddress (Val a) encoding)"
proof (intro conjI impI)
  assume f: "formatEmailAddress r = Inr y"
  then have t: "trim y \<noteq> []" by (rule email_hashable)
  from f show "processEmailAddress r HEX = Inr (toStringHex (sha256 (utf8 y)))"
    by (simp add: processEmailAddress_def hashAndEncode_ok(1) [OF t])
  from f show "processEmailAddress r BASE64 = Inr (toStringBase64 (sha256 (utf8 y)))"
    by (simp add: processEmailAddress_def hashAndEncode_ok(2) [OF t])
next
  have f: "formatEmailAddress (Val ''  ALEXZ@example.com   '') = Inr ''alexz@example.com''"
    by code_simp
  then have t: "trim ''alexz@example.com'' \<noteq> []" by (rule email_hashable)
  from f show "processEmailAddress (Val ''  ALEXZ@example.com   '') HEX
       = Inr (toStringHex (sha256 (utf8 ''alexz@example.com'')))"
    by (simp only: processEmailAddress_def hashAndEncode_ok(1) [OF t] sum.case)
next
  assume h: "formatEmailAddress (Val a) = Inr y \<and> toLowerCase (trim b) = toLowerCase (trim a)"
  have "formatEmailAddress (Val b) = Inr y"
    by (rule formatEmailAddress_variant [OF conjunct1 [OF h] conjunct2 [OF h]])
  with h have "formatEmailAddress (Val b) = formatEmailAddress (Val a)" by simp
  then show "processEmailAddress (Val b) encoding = processEmailAddress (Val a) encoding"
    by (simp add: processEmailAddress_def)
qed

text \<open>
  The digest of the normal form \<open>alexz@example.com\<close>, as the test suite of the
  repository expects it.
\<close>

lemma sha256_alexz:
  "sha256 (utf8 ''alexz@example.com'') =
     [0x50, 0x9e, 0x93, 0x30, 0x19, 0xbb, 0x28, 0x5a, 0x13, 0x4a, 0x93, 0x34, 0xb8, 0xbb, 0x67, 0x9d,
      0xff, 0x79, 0xd0, 0xce, 0x02, 0x3d, 0x52, 0x9a, 0xf4, 0xbd, 0x74, 0x4d, 0x47, 0xb4, 0xfd, 0x8a]"
  by code_simp

theorem processEmailAddress_digest_witness:
  "formatEmailAddress (Val ''  ALEXZ@example.com   '') = Inr ''alexz@example.com''
   \<and> processEmailAddress (Val ''  ALEXZ@example.com   '') HEX
       = Inr ''509e933019bb285a134a9334b8bb679dff79d0ce023d529af4bd744d47b4fd8a''
   \<and> processEmailAddress (Val ''  ALEXZ@example.com   '') BASE64
       = Inr ''UJ6TMBm7KFoTSpM0uLtnnf950M4CPVKa9L10TUe0/Yo=''
   \<and> toLowerCase (trim ''alexz@example.com'') = toLowerCase (trim ''  ALEXZ@example.com   '')
   \<and> processEmailAddress (Val ''alexz@example.com'') HEX
       = processEmailAddress (Val ''  ALEXZ@example.com   '') HEX"
proof -
  note d = processEmailAddress_digest [of "Val ''  ALEXZ@example.com   ''" "''alexz@example.com''"
      "''  ALEXZ@example.com   ''" "''alexz@example.com''" HEX]
  have f: "formatEmailAddress (Val ''  ALEXZ@example.com   '') = Inr ''alexz@example.com''"
    by code_simp
  have x: "toStringHex [0x50, 0x9e, 0x93, 0x30, 0x19, 0xbb, 0x28, 0x5a, 0x13, 0x4a, 0x93, 0x34,
      0xb8, 0xbb, 0x67, 0x9d, 0xff, 0x79, 0xd0, 0xce, 0x02, 0x3d, 0x52, 0x9a, 0xf4, 0xbd, 0x74,
      0x4d, 0x47, 0xb4, 0xfd, 0x8a]
      = ''509e933019bb285a134a9334b8bb679dff79d0ce023d529af4bd744d47b4fd8a''"
    by code_simp
  have b: "toStringBase64 [0x50, 0x9e, 0x93, 0x30, 0x19, 0xbb, 0x28, 0x5a, 0x13, 0x4a, 0x93, 0x34,
      0xb8, 0xbb, 0x67, 0x9d, 0xff, 0x79, 0xd0, 0xce, 0x02, 0x3d, 0x52, 0x9a, 0xf4, 0xbd, 0x74,
      0x4d, 0x47, 0xb4, 0xfd, 0x8a]
      = ''UJ6TMBm7KFoTSpM0uLtnnf950M4CPVKa9L10TUe0/Yo=''"
    by code_simp
  from d [THEN conjunct1, THEN mp, OF f]
  have 1: "processEmailAddress (Val ''  ALEXZ@example.com   '') HEX
       = Inr ''509e933019bb285a134a9334b8bb679dff79d0ce023d529af4bd744d47b4fd8a''"
    and 2: "processEmailAddress (Val ''  ALEXZ@example.com   '') BASE64
       = Inr ''UJ6TMBm7KFoTSpM0uLtnnf950M4CPVKa9L10TUe0/Yo=''"
    by (simp_all only: sha256_alexz x b)
  have l: "toLowerCase (trim ''alexz@example.com'') = toLowerCase (trim ''  ALEXZ@example.com   '')"
    by code_simp
  have 3: "processEmailAddress (Val ''alexz@example.com'') HEX
       = processEmailAddress (Val ''  ALEXZ@example.com   '') HEX"
    by (rule d [THEN conjunct2, THEN conjunct2, THEN mp, OF conjI [OF f l]])
  show ?thesis by (intro conjI f 1 2 l 3)
qed

text \<open>
  Claim C10. In the four process operations of the identifiers the normalizer runs
  first: when it fails, the operation fails with the normalizer's own error, whatever
  the encoding argument is. An encoding that is neither \<open>hex\<close> nor \<open>base64\<close> is
  rejected only once the normalizer has succeeded, with the message of \<open>encode\<close>.
\<close>

theorem process_normalizer_error_first:
  "(formatEmailAddress r = Inl err \<longrightarrow> processEmailAddress r encoding = Inl err)
   \<and> (formatPhoneNumber r = Inl err \<longrightarrow> processPhoneNumber r encoding = Inl err)
   \<and> (formatGivenName r = Inl err \<longrightarrow> processGivenName r encoding = Inl err)
   \<and> (formatFamilyName r = Inl err \<longrightarrow> processFamilyName r encoding = Inl err)
   \<and> (encoding \<noteq> ''hex'' \<and> encoding \<noteq> ''base64'' \<longrightarrow>
        (formatEmailAddress r = Inr y \<longrightarrow>
           processEmailAddress r encoding = Inl (InvalidInput (''Invalid encoding: '' @ encoding)))
        \<and> (formatPhoneNumber r = Inr y \<longrightarrow>
           processPhoneNumber r encoding = Inl (InvalidInput (''Invalid encoding: '' @ encoding)))
        \<and> (formatGivenName r = Inr y \<longrightarrow>
           processGivenName r encoding = Inl (InvalidInput (''Invalid encoding: '' @ encoding)))
        \<and> (formatFamilyName r = Inr y \<longrightarrow>
           processFamilyName r encoding = Inl (InvalidInput (''Invalid encoding: '' @ encoding))))"
proof (intro conjI impI)
  show "processEmailAddress r encoding = Inl err" if "formatEmailAddress r = Inl err"
    using that by (simp add: processEmailAddress_def)
  show "processPhoneNumber r encoding = Inl err" if "formatPhoneNumber r = Inl err"
    using that by (simp add: processPhoneNumber_def)
  show "processGivenName r encoding = Inl err" if "formatGivenName r = Inl err"
    using that by (simp add: processGivenName_def)
  show "processFamilyName r encoding = Inl err" if "formatFamilyName r = Inl err"
    using that by (simp add: processFamilyName_def)
next
  assume e: "encoding \<noteq> ''hex'' \<and> encoding \<noteq> ''base64''" and f: "formatEmailAddress r = Inr y"
  from e have "hashAndEncode y encoding = Inl (InvalidInput (''Invalid encoding: '' @ encoding))"
    using hashAndEncode_ok(3) [OF email_hashable [OF f]] by blast
  with f show "processEmailAddress r encoding = Inl (InvalidInput (''Invalid encoding: '' @ encoding))"
    by (simp add: processEmailAddress_def)
next
  assume e: "encoding \<noteq> ''hex'' \<and> encoding \<noteq> ''base64''" and f: "formatPhoneNumber r = Inr y"
  from e have "hashAndEncode y encoding = Inl (InvalidInput (''Invalid encoding: '' @ encoding))"
    using hashAndEncode_ok(3) [OF phone_hashable [OF f]] by blast
  with f show "processPhoneNumber r encoding = Inl (InvalidInput (''Invalid encoding: '' @ encoding))"
    by (simp add: processPhoneNumber_def)
next
  assume e: "encoding \<noteq> ''hex'' \<and> encoding \<noteq> ''base64''" and f: "formatGivenName r = Inr y"
  from e have "hashAndEncode y encoding = Inl (InvalidInput (''Invalid encoding: '' @ encoding))"
    using hashAndEncode_ok(3) [OF given_hashable [OF f]] by blast
  with f show "processGivenName r encoding = Inl (InvalidInput (''Invalid encoding: '' @ encoding))"
    by (simp add: processGivenName_def)
next
  assume e: "encoding \<noteq> ''hex'' \<and> encoding \<noteq> ''base64''" and f: "formatFamilyName r = Inr y"
  from e have "hashAndEncode y encoding = Inl (InvalidInput (''Invalid encoding: '' @ encoding))"
    using hashAndEncode_ok(3) [OF family_hashable [OF f]] by blast
  with f show "processFamilyName r encoding = Inl (InvalidInput (''Invalid encoding: '' @ encoding))"
    by (simp add: processFamilyName_def)
qed


theorem process_normalizer_error_first_witness:
  "formatEmailAddress (Val ''quinn'') = Inl (InvalidInput ''Email is not of the form user@domain'')
   \<and> processEmailAddress (Val ''quinn'') ''rot13''
       = Inl (InvalidInput ''Email is not of the form user@domain'')
   \<and> formatPhoneNumber (Val ''+abc-DEF'') = Inl (InvalidInput ''Phone number contains no digits.'')
   \<and> processPhoneNumber (Val ''+abc-DEF'') ''rot13''
       = Inl (InvalidInput ''Phone number contains no digits.'')
   \<and> formatGivenName (Val '' Mr. '') = Inl (InvalidInput ''Given name consists solely of a prefix.'')
   \<and> processGivenName (Val '' Mr. '') ''rot13''
       = Inl (InvalidInput ''Given name consists solely of a prefix.'')
   \<and> formatFamilyName (Val '', Jr. '') = Inl (InvalidInput ''Family name consists solely of a suffix.'')
   \<and> processFamilyName (Val '', Jr. '') ''rot13''
       = Inl (InvalidInput ''Family name consists solely of a suffix.'')
   \<and> ''rot13'' \<noteq> ''hex'' \<and> ''rot13'' \<noteq> ''base64''
   \<and> formatEmailAddress (Val ''QuinnY@EXAMPLE.com'') = Inr ''quinny@example.com''
   \<and> processEmailAddress (Val ''QuinnY@EXAMPLE.com'') ''rot13''
       = Inl (InvalidInput ''Invalid encoding: rot13'')
   \<and> formatPhoneNumber (Val ''1 800 555 0100'') = Inr ''+18005550100''
   \<and> processPhoneNumber (Val ''1 800 555 0100'') ''rot13''
       = Inl (InvalidInput ''Invalid encoding: rot13'')
   \<and> formatGivenName (Val '' Alex   '') = Inr ''alex''
   \<and> processGivenName (Val '' Alex   '') ''rot13'' = Inl (InvalidInput ''Invalid encoding: rot13'')
   \<and> formatFamilyName (Val '' Quinn   '') = Inr ''quinn''
   \<and> processFamilyName (Val '' Quinn   '') ''rot13'' = Inl (InvalidInput ''Invalid encoding: rot13'')"
proof -
  note p = process_normalizer_error_first
  have e1: "formatEmailAddress (Val ''quinn'') = Inl (InvalidInput ''Email is not of the form user@domain'')"
    by code_simp
  have e2: "formatPhoneNumber (Val ''+abc-DEF'') = Inl (InvalidInput ''Phone number contains no digits.'')"
    by code_simp
  have e3: "formatGivenName (Val '' Mr. '') = Inl (InvalidInput ''Given name consists solely of a prefix.'')"
    by code_simp
  have e4: "formatFamilyName (Val '', Jr. '') = Inl (InvalidInput ''Family name consists solely of a suffix.'')"
    by code_simp
  have n: "''rot13'' \<noteq> ''hex'' \<and> ''rot13'' \<noteq> ''base64''" by simp
  have s1: "formatEmailAddress (Val ''QuinnY@EXAMPLE.com'') = Inr ''quinny@example.com''" by code_simp
  have s2: "formatPhoneNumber (Val ''1 800 555 0100'') = Inr ''+18005550100''" by code_simp
  have s3: "formatGivenName (Val '' Alex   '') = Inr ''alex''" by code_simp
  have s4: "formatFamilyName (Val '' Quinn   '') = Inr ''quinn''" by code_simp
  have a: "''Invalid encoding: '' @ ''rot13'' = ''Invalid encoding: rot13''" by simp
  note q = p [THEN conjunct2, THEN conjunct2, THEN conjunct2, THEN conjunct2, THEN mp, OF n]
  have r1: "processEmailAddress (Val ''quinn'') ''rot13''
       = Inl (InvalidInput ''Email is not of the form user@domain'')"
    by (rule p [THEN conjunct1, THEN mp, OF e1])
  have r2: "processPhoneNumber (Val ''+abc-DEF'') ''rot13''
       = Inl (InvalidInput ''Phone number contains no digits.'')"
    by (rule p [THEN conjunct2, THEN conjunct1, THEN mp, OF e2])
  have r3: "processGivenName (Val '' Mr. '') ''rot13''
       = Inl (InvalidInput ''Given name consists solely of a prefix.'')"
    by (rule p [THEN conjunct2, THEN conjunct2, THEN conjunct1, THEN mp, OF e3])
  have r4: "processFamilyName (Val '', Jr. '') ''rot13''
       = Inl (InvalidInput ''Family name consists solely of a suffix.'')"
    by (rule p [THEN conjunct2, THEN conjunct2, THEN conjunct2, THEN conjunct1, THEN mp, OF e4])
  have t1: "processEmailAddress (Val ''QuinnY@EXAMPLE.com'') ''rot13''
       = Inl (InvalidInput ''Invalid encoding: rot13'')"
    using q [THEN conjunct1, THEN mp, OF s1] by (simp only: a)
  have t2: "processPhoneNumber (Val ''1 800 555 0100'') ''rot13''
       = Inl (InvalidInput ''Invalid encoding: rot13'')"
    using q [THEN conjunct2, THEN conjunct1, THEN mp, OF s2] by (simp only: a)
  have t3: "processGivenName (Val '' Alex   '') ''rot13'' = Inl (InvalidInput ''Invalid encoding: rot13'')"
    using q [THEN conjunct2, THEN conjunct2, THEN conjunct1, THEN mp, OF s3] by (simp only: a)
  have t4: "processFamilyName (Val '' Quinn   '') ''rot13'' = Inl (InvalidInput ''Invalid encoding: rot13'')"
    using q [THEN conjunct2, THEN conjunct2, THEN conjunct2, THEN mp, OF s4] by (simp only: a)
  show ?thesis
    by (intro conjI e1 r1 e2 r2 e3 r3 e4 r4 n [THEN conjunct1] n [THEN conjunct2]
        s1 t1 s2 t2 s3 t3 s4 t4)
qed


section \<open>Failures\<close>

lemma trim_Nil: "trim [] = []"
  by (simp add: trim_def)

lemma absent_email: "failsOnAbsent formatEmailAddress s"
  by (cases "s = []") (simp_all add: failsOnAbsent_def formatEmailAddress_def)

lemma absent_phone: "failsOnAbsent formatPhoneNumber s"
  by (cases "s = []") (simp_all add: failsOnAbsent_def formatPhoneNumber_def)

lemma absent_given: "failsOnAbsent formatGivenName s"
  by (cases "s = []") (simp_all add: failsOnAbsent_def formatGivenName_def toLowerCase_def)

lemma absent_family: "failsOnAbsent formatFamilyName s"
  by (cases "s = []") (simp_all add: failsOnAbsent_def formatFamilyName_def toLowerCase_def)

lemma absent_region: "failsOnAbsent formatRegionCode s"
  by (cases "s = []") (simp_all add: failsOnAbsent_def formatRegionCode_def toUpperCase_def)

lemma absent_postal: "failsOnAbsent formatPostalCode s"
  by (cases "s = []") (simp_all add: failsOnAbsent_def formatPostalCode_def)

lemma absent_hash: "failsOnAbsent hashString s"
  by (simp add: failsOnAbsent_def hashString_def)

lemma toStringHex_nonempty: "b \<noteq> [] \<Longrightarrow> toStringHex b \<noteq> []"
  using length_toStringHex [of b] by auto

lemma toStringBase64_nonempty: "b \<noteq> [] \<Longrightarrow> toStringBase64 b \<noteq> []"
  by (cases b rule: toStringBase64.cases) simp_all

lemma hexEncode_nonempty: "hexEncode b \<noteq> Inr []"
  by (cases b) (simp_all add: hexEncode_def toStringHex_nonempty)

lemma base64Encode_nonempty: "base64Encode b \<noteq> Inr []"
  by (cases b) (simp_all add: base64Encode_def toStringBase64_nonempty)

lemma hashString_nonempty: "hashString a \<noteq> Inr []"
  by (cases a) (simp_all add: hashString_def sha256_nonempty)

lemma encode_nonempty: "encode b encoding \<noteq> Inr []"
  by (simp add: encode_def hexEncode_nonempty base64Encode_nonempty)

lemma hashAndEncode_nonempty: "hashAndEncode n encoding \<noteq> Inr []"
  by (cases "hashString (Val n)") (simp_all add: hashAndEncode_def encode_nonempty)

lemma hashAndEncode_bad_encoding:
  assumes "encoding \<noteq> ''hex'' \<and> encoding \<noteq> ''base64''"
  shows "failsInvalidInput (hashAndEncode n encoding)"
proof (cases "hashString (Val n)")
  case (Inl e)
  then show ?thesis by (cases e) (simp add: hashAndEncode_def)
next
  case (Inr d)
  with assms show ?thesis by (simp add: hashAndEncode_def encode_def)
qed

lemma fails_Inl: "failsInvalidInput (Inl e)"
  by (cases e) simp

text \<open>
  Claim C9. The six normalizers and \<open>hashString\<close> fail with InvalidInput for
  \<^verbatim>\<open>null\<close>, for \<^verbatim>\<open>undefined\<close> and for a blank string; \<open>hexEncode\<close> and
  \<open>base64Encode\<close> fail with InvalidInput for \<^verbatim>\<open>null\<close>, for \<^verbatim>\<open>undefined\<close> and for
  no bytes; the process operations of the identifiers fail with InvalidInput for an
  encoding that is neither \<open>hex\<close> nor \<open>base64\<close>. A failure is always the error:
  no operation returns the empty string (or no bytes) in its place.
\<close>

theorem failures_are_InvalidInput:
  "failsOnAbsent formatEmailAddress s \<and> failsOnAbsent formatPhoneNumber s
   \<and> failsOnAbsent formatGivenName s \<and> failsOnAbsent formatFamilyName s
   \<and> failsOnAbsent formatRegionCode s \<and> failsOnAbsent formatPostalCode s
   \<and> failsOnAbsent hashString s
   \<and> failsInvalidInput (hexEncode Null) \<and> failsInvalidInput (hexEncode Undefined)
   \<and> failsInvalidInput (hexEncode (Val []))
   \<and> failsInvalidInput (base64Encode Null) \<and> failsInvalidInput (base64Encode Undefined)
   \<and> failsInvalidInput (base64Encode (Val []))
   \<and> (encoding \<noteq> ''hex'' \<and> encoding \<noteq> ''base64'' \<longrightarrow>
        failsInvalidInput (processEmailAddress r encoding)
        \<and> failsInvalidInput (processPhoneNumber r encoding)
        \<and> failsInvalidInput (processGivenName r encoding)
        \<and> failsInvalidInput (processFamilyName r encoding))
   \<and> formatEmailAddress r \<noteq> Inr [] \<and> formatPhoneNumber r \<noteq> Inr []
   \<and> formatGivenName r \<noteq> Inr [] \<and> formatFamilyName r \<noteq> Inr []
   \<and> formatRegionCode r \<noteq> Inr [] \<and> formatPostalCode r \<noteq> Inr []
   \<and> hashString r \<noteq> Inr [] \<and> hexEncode b \<noteq> Inr [] \<and> base64Encode b \<noteq> Inr []
   \<and> processEmailAddress r encoding \<noteq> Inr [] \<and> processPhoneNumber r encoding \<noteq> Inr []
   \<and> processGivenName r encoding \<noteq> Inr [] \<and> processFamilyName r encoding \<noteq> Inr []
   \<and> processRegionCode r \<noteq> Inr [] \<and> processPostalCode r \<noteq> Inr []"
proof -
  have enc: "failsInvalidInput (processEmailAddress r encoding)
        \<and> failsInvalidInput (processPhoneNumber r encoding)
        \<and> failsInvalidInput (processGivenName r encoding)
        \<and> failsInvalidInput (processFamilyName r encoding)"
    if e: "encoding \<noteq> ''hex'' \<and> encoding \<noteq> ''base64''"
  proof (intro conjI)
    show "failsInvalidInput (processEmailAddress r encoding)"
      by (cases "formatEmailAddress r")
        (simp_all add: processEmailAddress_def fails_Inl hashAndEncode_bad_encoding [OF e])
    show "failsInvalidInput (processPhoneNumber r encoding)"
      by (cases "formatPhoneNumber r")
        (simp_all add: processPhoneNumber_def fails_Inl hashAndEncode_bad_encoding [OF e])
    show "failsInvalidInput (processGivenName r encoding)"
      by (cases "formatGivenName r")
        (simp_all add: processGivenName_def fails_Inl hashAndEncode_bad_encoding [OF e])
    show "failsInvalidInput (processFamilyName r encoding)"
      by (cases "formatFamilyName r")
        (simp_all add: processFamilyName_def fails_Inl hashAndEncode_bad_encoding [OF e])
  qed
  have n1: "formatEmailAddress r \<noteq> Inr []" using email_result_arg [of r "[]"] by blast
  have n2: "formatPhoneNumber r \<noteq> Inr []"
    using phone_normalized [of r "[]"] by (auto simp: normalizedField_def)
  have n3: "formatGivenName r \<noteq> Inr []"
    using given_normalized [of r "[]"] by (auto simp: normalizedField_def)
  have n4: "formatFamilyName r \<noteq> Inr []" using family_result [of r "[]"] by blast
  have n5: "formatRegionCode r \<noteq> Inr []"
    using region_normalized [of r "[]"] by (auto simp: normalizedField_def)
  have n6: "formatPostalCode r \<noteq> Inr []"
    using postal_normalized [of r "[]"] by (auto simp: normalizedField_def)
  have p1: "processEmailAddress r encoding \<noteq> Inr []"
    by (cases "formatEmailAddress r") (simp_all add: processEmailAddress_def hashAndEncode_nonempty)
  have p2: "processPhoneNumber r encoding \<noteq> Inr []"
    by (cases "formatPhoneNumber r") (simp_all add: processPhoneNumber_def hashAndEncode_nonempty)
  have p3: "processGivenName r encoding \<noteq> Inr []"
    by (cases "formatGivenName r") (simp_all add: processGivenName_def hashAndEncode_nonempty)
  have p4: "processFamilyName r encoding \<noteq> Inr []"
    by (cases "formatFamilyName r") (simp_all add: processFamilyName_def hashAndEncode_nonempty)
  have p5: "processRegionCode r \<noteq> Inr []" using n5 by (simp add: processRegionCode_def)
  have p6: "processPostalCode r \<noteq> Inr []" using n6 by (simp add: processPostalCode_def)
  have h: "failsInvalidInput (hexEncode Null)" "failsInvalidInput (hexEncode Undefined)"
    "failsInvalidInput (hexEncode (Val []))"
    "failsInvalidInput (base64Encode Null)" "failsInvalidInput (base64Encode Undefined)"
    "failsInvalidInput (base64Encode (Val []))"
    by (simp_all add: hexEncode_def base64Encode_def)
  from enc have encI: "encoding \<noteq> ''hex'' \<and> encoding \<noteq> ''base64'' \<longrightarrow>
        failsInvalidInput (processEmailAddress r encoding)
        \<and> failsInvalidInput (processPhoneNumber r encoding)
        \<and> failsInvalidInput (processGivenName r encoding)
        \<and> failsInvalidInput (processFamilyName r encoding)"
    by (rule impI)
  show ?thesis
    by (intro conjI absent_email absent_phone absent_given absent_family absent_region
        absent_postal absent_hash h encI
        n1 n2 n3 n4 n5 n6 hashString_nonempty hexEncode_nonempty base64Encode_nonempty
        p1 p2 p3 p4 p5 p6)
qed


theorem failures_are_InvalidInput_witness:
  "trim ''  '' = []
   \<and> failsInvalidInput (formatEmailAddress (Val ''  ''))
   \<and> failsInvalidInput (formatPhoneNumber (Val ''  ''))
   \<and> failsInvalidInput (formatGivenName (Val ''  ''))
   \<and> failsInvalidInput (formatFamilyName (Val ''  ''))
   \<and> failsInvalidInput (formatRegionCode (Val ''  ''))
   \<and> failsInvalidInput (formatPostalCode (Val ''  ''))
   \<and> failsInvalidInput (hashString (Val ''  ''))
   \<and> ''rot13'' \<noteq> ''hex'' \<and> ''rot13'' \<noteq> ''base64''
   \<and> failsInvalidInput (processEmailAddress (Val ''QuinnY@EXAMPLE.com'') ''rot13'')
   \<and> failsInvalidInput (processPhoneNumber (Val ''1 800 555 0100'') ''rot13'')
   \<and> failsInvalidInput (processGivenName (Val '' Alex   '') ''rot13'')
   \<and> failsInvalidInput (processFamilyName (Val '' Quinn   '') ''rot13'')"
proof -
  note f = failures_are_InvalidInput
  have t: "trim ''  '' = []" by code_simp
  have n: "''rot13'' \<noteq> ''hex'' \<and> ''rot13'' \<noteq> ''base64''" by simp
  have a: "failsInvalidInput (g (Val ''  ''))" if "failsOnAbsent g ''  ''"
    for g :: "string arg \<Rightarrow> error + 'a"
    using that t by (simp add: failsOnAbsent_def)
  note k = f [THEN conjunct2, THEN conjunct2, THEN conjunct2, THEN conjunct2, THEN conjunct2,
      THEN conjunct2, THEN conjunct2, THEN conjunct2, THEN conjunct2, THEN conjunct2,
      THEN conjunct2, THEN conjunct2, THEN conjunct2, THEN conjunct1, THEN mp, OF n]
  show ?thesis
    by (intro conjI t n [THEN conjunct1] n [THEN conjunct2]
        a [OF f [THEN conjunct1]]
        a [OF f [THEN conjunct2, THEN conjunct1]]
        a [OF f [THEN conjunct2, THEN conjunct2, THEN conjunct1]]
        a [OF f [THEN conjunct2, THEN conjunct2, THEN conjunct2, THEN conjunct1]]
        a [OF f [THEN conjunct2, THEN conjunct2, THEN conjunct2, THEN conjunct2, THEN conjunct1]]
        a [OF f [THEN conjunct2, THEN conjunct2, THEN conjunct2, THEN conjunct2, THEN conjunct2,
          THEN conjunct1]]
        a [OF f [THEN conjunct2, THEN conjunct2, THEN conjunct2, THEN conjunct2, THEN conjunct2,
          THEN conjunct2, THEN conjunct1]]
        k [THEN conjunct1] k [THEN conjunct2, THEN conjunct1]
        k [THEN conjunct2, THEN conjunct2, THEN conjunct1]
        k [THEN conjunct2, THEN conjunct2, THEN conjunct2])
qed


end
